theory Spec2Isabelle
  imports Main "HOL-Library.Sublist"
begin

section \<open>The unused-function finder of go-oracle-tools (package unused)\<close>

text \<open>
  A shallow embedding of \<^verbatim>\<open>src/unused/unused_func_finder.go\<close>. Go strings are byte
  sequences and are modelled as \<^typ>\<open>string\<close>. The finder struct is a record that is passed
  through every method and returned updated. Everything outside the repository (the file
  system, the Go parser, package path/filepath, the environment and the oracle) is collected
  in a record of parameters. The lines written to the log sink and the calls of the file
  system, the parser and the oracle are written to a trace, in the order in which they
  happen.
\<close>

subsection \<open>Package strings\<close>

text \<open>\<^verbatim>\<open>strings.HasPrefix(s, prefix)\<close>\<close>

fun HasPrefix :: "string \<Rightarrow> string \<Rightarrow> bool" where
  "HasPrefix s [] = True"
| "HasPrefix [] (p # ps) = False"
| "HasPrefix (c # s) (p # ps) = (c = p \<and> HasPrefix s ps)"

text \<open>\<^verbatim>\<open>strings.HasSuffix(s, suffix)\<close>\<close>

definition HasSuffix :: "string \<Rightarrow> string \<Rightarrow> bool" where
  "HasSuffix s suf = HasPrefix (rev s) (rev suf)"

text \<open>\<^verbatim>\<open>strings.Contains(s, substr)\<close>: some position of \<open>s\<close> starts with \<open>substr\<close>.\<close>

fun Contains :: "string \<Rightarrow> string \<Rightarrow> bool" where
  "Contains [] substr = (substr = [])"
| "Contains (c # s) substr = (HasPrefix (c # s) substr \<or> Contains s substr)"

text \<open>
  \<^verbatim>\<open>strings.LastIndex(s, substr)\<close>: the index of the last position of \<open>s\<close> that starts
  with \<open>substr\<close>, or \<open>-1\<close> when there is none.
\<close>

fun LastIndex :: "string \<Rightarrow> string \<Rightarrow> int" where
  "LastIndex [] substr = (if substr = [] then 0 else - 1)"
| "LastIndex (c # s) substr =
     (let r = LastIndex s substr
      in if 0 \<le> r then r + 1 else if HasPrefix (c # s) substr then 0 else - 1)"

text \<open>\<^verbatim>\<open>strings.TrimPrefix(s, prefix)\<close>\<close>

definition TrimPrefix :: "string \<Rightarrow> string \<Rightarrow> string" where
  "TrimPrefix s p = (if HasPrefix s p then drop (length p) s else s)"

text \<open>\<^verbatim>\<open>strings.Split(s, string(sep))\<close> for a one-byte separator: never the empty list.\<close>

fun Split :: "string \<Rightarrow> char \<Rightarrow> string list" where
  "Split [] sep = [[]]"
| "Split (c # s) sep =
     (if c = sep then [] # Split s sep
      else (case Split s sep of [] \<Rightarrow> [[c]] | w # ws \<Rightarrow> (c # w) # ws))"

text \<open>
  \<^verbatim>\<open>filepath.SplitList(path)\<close> as on Unix: the empty string gives the empty list, any other
  string is split at the list separator \<open>:\<close>.
\<close>

definition SplitList :: "string \<Rightarrow> string list" where
  "SplitList path = (if path = [] then [] else Split path (CHR '':''))"

text \<open>
  Indexing a Go slice, \<^verbatim>\<open>xs[i]\<close>: outside \<open>0 \<le> i < len(xs)\<close> the runtime panics, which
  is the value \<open>None\<close>.
\<close>

definition index :: "'a list \<Rightarrow> int \<Rightarrow> 'a option" where
  "index xs i = (if 0 \<le> i \<and> i < int (length xs) then Some (xs ! nat i) else None)"

subsection \<open>Data\<close>

text \<open>\<^verbatim>\<open>type UnusedThing struct { Name string; File string }\<close>\<close>

record UnusedThing =
  Name :: string
  File :: string

text \<open>
  \<^verbatim>\<open>serial.CallGraph\<close> of the oracle: the two fields the finder reads, \<^verbatim>\<open>Name\<close> (the
  qualified name) and \<^verbatim>\<open>Pos\<close>.
\<close>

record CallGraph =
  cg_Name :: string
  cg_Pos :: string

text \<open>
  What \<^verbatim>\<open>parser.ParseFile\<close> gives that the finder reads: the package name
  \<^verbatim>\<open>f.Name.Name\<close> and the nodes of the syntax tree in the order in which
  \<^verbatim>\<open>ast.Inspect\<close> hands them to its callback. A node is a function declaration with
  the string of its name (\<^verbatim>\<open>node.Name.String()\<close>), or anything else (any other node type,
  and the nil that ends the children of a node).
\<close>

datatype Node = FuncDecl string | OtherNode

record ast_File =
  file_Name :: string
  file_Nodes :: "Node list"

text \<open>
  Errors are values. \<open>ExternalError\<close> stands for an error made outside the repository
  (parser, file system, oracle); the other constructors are the errors the finder creates:
  \<^verbatim>\<open>"no files supplied as arguments"\<close>, \<^verbatim>\<open>"GOPATH not set"\<close>,
  \<^verbatim>\<open>"no callgraph present in oracle results"\<close>,
  \<^verbatim>\<open>"error getting main package path: %v"\<close> and \<^verbatim>\<open>"cd %q and try again"\<close>.
\<close>

datatype error =
    ExternalError string
  | NoFilesSupplied
  | GopathNotSet
  | NoCallgraphPresent
  | MainPackagePath error
  | CdAndTryAgain string

text \<open>
  The lines written to \<^verbatim>\<open>LogWriter\<close>, one constructor for each format string of the
  source with its arguments. The first six are written by \<^verbatim>\<open>Errorf\<close>, the others by
  \<^verbatim>\<open>Logf\<close>.
\<close>

datatype logline =
    MustSupplyFile
  | GopathUnset
  | ErrorReadingDirectory string error
  | ErrorReadingFile string error
  | Continuing
  | ErrorFromOracle error
  | FoundPkg string
  | IgnoringPath string
  | CollectingFuncDecls
  | ParsedSourceFiles int
  | RunningCallgraphAnalysis "string set"
  | ScanningCallgraph
  | EmptyLine

text \<open>
  The trace of a run: lines written to the log sink, and calls of \<^verbatim>\<open>os.Stat\<close>,
  \<^verbatim>\<open>filepath.Walk\<close>, \<^verbatim>\<open>parser.ParseFile\<close> and \<^verbatim>\<open>oracle.Query\<close> with their
  argument. Go ranges over the package map in no fixed order, so the array that
  \<^verbatim>\<open>pkgsAsArray\<close> builds is known up to its order only: the model hands over the set.
\<close>

datatype event =
    Log logline
  | Stat string
  | Walk string
  | Parse string
  | Query "string set"

text \<open>
  \<^verbatim>\<open>type UnusedFuncFinder struct\<close>. The map \<^verbatim>\<open>pkgs\<close> is used as a set. The field
  \<^verbatim>\<open>LogWriter\<close> is the sink that the \<open>Log\<close> events of \<open>trace\<close> are written to;
  \<open>trace\<close> is not a field of the Go struct. \<^verbatim>\<open>numFilesRead\<close> is a Go int that is
  only ever incremented by one for each file read.
\<close>

record UnusedFuncFinder =
  Callgraph :: "CallGraph list"
  Ignore :: string
  Verbose :: bool
  IncludeAll :: bool
  CallgraphJSON :: string
  Idents :: bool
  ExportedOnly :: bool
  SkipMethods :: bool
  filesByCaller :: "string \<rightharpoonup> string list"
  pkgs :: "string set"
  funcs :: "UnusedThing list"
  numFilesRead :: int
  trace :: "event list"

text \<open>
  The result of a Go function that may panic: \<open>None\<close> is the panic, \<open>Some\<close> the normal
  return. \<^verbatim>\<open>Run\<close> returns the pair \<^verbatim>\<open>([]UnusedThing, error)\<close>; a nil slice is the
  empty list and a nil error is \<open>None\<close>.
\<close>

type_synonym run_result = "UnusedThing list \<times> error option"

text \<open>
  The world outside the repository.
  \<^item> \<open>os_Getenv_GOPATH\<close>: \<^verbatim>\<open>os.Getenv("GOPATH")\<close>, empty when the variable is unset.
  \<^item> \<open>os_Stat_IsDir\<close>: whether \<^verbatim>\<open>os.Stat\<close> succeeds and reports a directory.
  \<^item> \<open>filepath_Walk\<close>: for a root, the entries \<^verbatim>\<open>filepath.Walk\<close> hands to its callback
    in order, each with its path, \<^verbatim>\<open>info.IsDir()\<close> and the error Walk met at that entry.
    Walk stops at the first entry for which the callback returns an error and returns
    that error (the callback of \<^verbatim>\<open>readDir\<close> never returns \<^verbatim>\<open>filepath.SkipDir\<close>).
  \<^item> \<open>parser_ParseFile\<close>: the parse of a file, or its error.
  \<^item> \<open>filepath_Abs\<close>, \<open>filepath_Join\<close>, \<open>filepath_Dir\<close>, \<open>filepath_Separator\<close>.
  \<^item> \<open>oracle_Query\<close>: the callgraph query for a set of packages: an error, or the
    \<^verbatim>\<open>Callgraph\<close> field of the serial result, \<open>None\<close> when that field is nil.
  \<^item> \<open>findUnusedIdents\<close>: the method \<^verbatim>\<open>findUnusedIdents\<close> that \<^verbatim>\<open>Run\<close> calls in
    identifiers-only mode. Its body is not in the source file, so it is a parameter: any
    function of the finder that panics or returns a result and the finder it leaves. The
    specification says of that mode that it "returns collected declarations directly (or
    some transformation thereof) without invoking the Reachability Graph Source at all";
    where a theorem needs this of the method, it is a hypothesis of the theorem.
\<close>

record env =
  os_Getenv_GOPATH :: string
  os_Stat_IsDir :: "string \<Rightarrow> bool"
  filepath_Walk :: "string \<Rightarrow> (string \<times> bool \<times> error option) list"
  parser_ParseFile :: "string \<Rightarrow> error + ast_File"
  filepath_Abs :: "string \<Rightarrow> error + string"
  filepath_Join :: "string \<Rightarrow> string \<Rightarrow> string"
  filepath_Dir :: "string \<Rightarrow> string"
  filepath_Separator :: char
  oracle_Query :: "string set \<Rightarrow> error + CallGraph list option"
  findUnusedIdents :: "UnusedFuncFinder \<Rightarrow> (run_result \<times> UnusedFuncFinder) option"

subsection \<open>The finder\<close>

text \<open>
  \<^verbatim>\<open>NewUnusedFunctionFinder\<close>: empty private storage, every option at its zero value, and a
  log sink nothing has been written to.
\<close>

definition NewUnusedFunctionFinder :: UnusedFuncFinder where
  "NewUnusedFunctionFinder =
     \<lparr>Callgraph = [], Ignore = [], Verbose = False, IncludeAll = False, CallgraphJSON = [],
      Idents = False, ExportedOnly = False, SkipMethods = False,
      filesByCaller = Map.empty, pkgs = {}, funcs = [], numFilesRead = 0, trace = []\<rparr>"

text \<open>\<^verbatim>\<open>Errorf\<close> always writes its line; \<^verbatim>\<open>Logf\<close> writes it when \<^verbatim>\<open>Verbose\<close> is set.\<close>

definition Errorf :: "logline \<Rightarrow> UnusedFuncFinder \<Rightarrow> UnusedFuncFinder" where
  "Errorf l uff = uff\<lparr>trace := trace uff @ [Log l]\<rparr>"

definition Logf :: "logline \<Rightarrow> UnusedFuncFinder \<Rightarrow> UnusedFuncFinder" where
  "Logf l uff = (if Verbose uff then uff\<lparr>trace := trace uff @ [Log l]\<rparr> else uff)"

definition AddPkg :: "string \<Rightarrow> UnusedFuncFinder \<Rightarrow> UnusedFuncFinder" where
  "AddPkg pkgName uff = Logf (FoundPkg pkgName) (uff\<lparr>pkgs := insert pkgName (pkgs uff)\<rparr>)"

text \<open>
  \<^verbatim>\<open>getCallgraphFromOracle\<close>: one query with the packages found; an error of the query or
  a nil callgraph is returned as an error, otherwise the callgraph is stored.
\<close>

definition getCallgraphFromOracle ::
  "env \<Rightarrow> UnusedFuncFinder \<Rightarrow> error option \<times> UnusedFuncFinder" where
  "getCallgraphFromOracle e uff =
     (let uff1 = uff\<lparr>trace := trace uff @ [Query (pkgs uff)]\<rparr>
      in case oracle_Query e (pkgs uff) of
           Inl err \<Rightarrow> (Some err, uff1)
         | Inr None \<Rightarrow> (Some NoCallgraphPresent, uff1)
         | Inr (Some cg) \<Rightarrow> (None, uff1\<lparr>Callgraph := cg\<rparr>))"

text \<open>
  \<^verbatim>\<open>getFullPkgName\<close>. The loop over the roots returns at the first root \<open>p\<close> for which
  \<^verbatim>\<open>filepath.Join(p, "src") + string(filepath.Separator)\<close> is a prefix of the absolute
  path. After the loop the error message reads \<^verbatim>\<open>goPaths[len(goPaths)-1]\<close>.
\<close>

fun getFullPkgName_loop :: "env \<Rightarrow> string \<Rightarrow> string list \<Rightarrow> string option" where
  "getFullPkgName_loop e abspath [] = None"
| "getFullPkgName_loop e abspath (p # goPaths) =
     (let p' = filepath_Join e p ''src'' @ [filepath_Separator e]
      in if \<not> HasPrefix abspath p' then getFullPkgName_loop e abspath goPaths
         else Some (filepath_Dir e (TrimPrefix abspath p')))"

definition getFullPkgName :: "env \<Rightarrow> string \<Rightarrow> (error + string) option" where
  "getFullPkgName e filename =
     (case filepath_Abs e filename of
        Inl err \<Rightarrow> Some (Inl err)
      | Inr abspath \<Rightarrow>
          (let goPaths = SplitList (os_Getenv_GOPATH e)
           in case getFullPkgName_loop e abspath goPaths of
                Some pkg \<Rightarrow> Some (Inr pkg)
              | None \<Rightarrow>
                  (case index goPaths (int (length goPaths) - 1) of
                     None \<Rightarrow> None
                   | Some p \<Rightarrow> Some (Inl (CdAndTryAgain p)))))"

text \<open>
  The callback given to \<^verbatim>\<open>ast.Inspect\<close>, for one node: the name of a function declaration
  is appended to \<^verbatim>\<open>funcs\<close> with the file name unless one of the four cases of the
  switch holds. The callback always returns true, so every node is visited.
\<close>

definition inspectNode :: "string \<Rightarrow> Node \<Rightarrow> UnusedFuncFinder \<Rightarrow> UnusedFuncFinder" where
  "inspectNode filename n uff =
     (let s = (case n of FuncDecl name \<Rightarrow> name | OtherNode \<Rightarrow> [])
      in if s \<noteq> [] then
           (if Contains s ''Test'' then uff
            else if s = ''main'' then uff
            else if s = ''init'' then uff
            else if s = ''test'' then uff
            else uff\<lparr>funcs := funcs uff @ [\<lparr>Name = s, File = filename\<rparr>]\<rparr>)
         else uff)"

fun Inspect :: "string \<Rightarrow> Node list \<Rightarrow> UnusedFuncFinder \<Rightarrow> UnusedFuncFinder" where
  "Inspect filename [] uff = uff"
| "Inspect filename (n # ns) uff = Inspect filename ns (inspectNode filename n uff)"

definition readFuncsAndImportsFromFile ::
  "env \<Rightarrow> string \<Rightarrow> UnusedFuncFinder \<Rightarrow> (error option \<times> UnusedFuncFinder) option" where
  "readFuncsAndImportsFromFile e filename uff =
     (let uff1 = uff\<lparr>trace := trace uff @ [Parse filename]\<rparr>
      in case parser_ParseFile e filename of
           Inl err \<Rightarrow> Some (Some err, uff1)
         | Inr f \<Rightarrow>
             (if file_Name f = ''main'' \<or> IncludeAll uff1 then
                (case getFullPkgName e filename of
                   None \<Rightarrow> None
                 | Some (Inl err) \<Rightarrow> Some (Some (MainPackagePath err), uff1)
                 | Some (Inr pkgName) \<Rightarrow>
                     (let uff2 = Inspect filename (file_Nodes f) (AddPkg pkgName uff1)
                      in Some (None, uff2\<lparr>numFilesRead := numFilesRead uff2 + 1\<rparr>)))
              else
                (let uff2 = Inspect filename (file_Nodes f) uff1
                 in Some (None, uff2\<lparr>numFilesRead := numFilesRead uff2 + 1\<rparr>))))"

text \<open>\<^verbatim>\<open>isInCG\<close>: the loop returns true at the first position that contains the file.\<close>

fun isInCG_loop :: "string list \<Rightarrow> string \<Rightarrow> bool" where
  "isInCG_loop [] file = False"
| "isInCG_loop (path # files) file =
     (if Contains path file then True else isInCG_loop files file)"

definition isInCG :: "UnusedFuncFinder \<Rightarrow> UnusedThing \<Rightarrow> bool" where
  "isInCG uff f =
     (case filesByCaller uff (Name f) of
        None \<Rightarrow> False
      | Some files \<Rightarrow> isInCG_loop files (File f))"

text \<open>\<^verbatim>\<open>computeUnusedFuncs\<close>: the loop appends to \<^verbatim>\<open>unused\<close>, which starts empty.\<close>

fun computeUnusedFuncs_loop ::
  "UnusedFuncFinder \<Rightarrow> UnusedThing list \<Rightarrow> UnusedThing list \<Rightarrow> UnusedThing list" where
  "computeUnusedFuncs_loop uff [] unused = unused"
| "computeUnusedFuncs_loop uff (f # fs) unused =
     computeUnusedFuncs_loop uff fs (if \<not> isInCG uff f then unused @ [f] else unused)"

definition computeUnusedFuncs :: "UnusedFuncFinder \<Rightarrow> UnusedThing list" where
  "computeUnusedFuncs uff = computeUnusedFuncs_loop uff (funcs uff) []"

text \<open>
  \<^verbatim>\<open>buildFileMap\<close>. A key that is not in a Go map reads as the nil slice, so the first
  append for a key gives the one-element list.
\<close>

definition buildFileMap_entry :: "CallGraph \<Rightarrow> UnusedFuncFinder \<Rightarrow> UnusedFuncFinder" where
  "buildFileMap_entry entry uff =
     (let idx = LastIndex (cg_Name entry) ''.'' + 1
      in if idx \<noteq> 0 then
           (let key = drop (nat idx) (cg_Name entry);
                old = (case filesByCaller uff key of None \<Rightarrow> [] | Some files \<Rightarrow> files)
            in uff\<lparr>filesByCaller := (filesByCaller uff)(key \<mapsto> old @ [cg_Pos entry])\<rparr>)
         else uff)"

fun buildFileMap_loop :: "CallGraph list \<Rightarrow> UnusedFuncFinder \<Rightarrow> UnusedFuncFinder" where
  "buildFileMap_loop [] uff = uff"
| "buildFileMap_loop (entry # entries) uff =
     buildFileMap_loop entries (buildFileMap_entry entry uff)"

definition buildFileMap :: "UnusedFuncFinder \<Rightarrow> UnusedFuncFinder" where
  "buildFileMap uff = buildFileMap_loop (Callgraph uff) uff"

text \<open>\<^verbatim>\<open>canReadSourceFile\<close> returns its answer and the finder, whose log it may write to.\<close>

definition canReadSourceFile :: "string \<Rightarrow> UnusedFuncFinder \<Rightarrow> bool \<times> UnusedFuncFinder" where
  "canReadSourceFile filename uff =
     (if Ignore uff \<noteq> [] \<and> Contains filename (Ignore uff) then
        (False, Logf (IgnoringPath filename) uff)
      else if \<not> HasSuffix filename ''.go'' then (False, uff)
      else (True, uff))"

text \<open>
  \<^verbatim>\<open>readDir\<close>. \<open>walkFn\<close> is the callback handed to \<^verbatim>\<open>filepath.Walk\<close>; the loop
  \<open>readDir_walk\<close> is Walk calling it on the entries in order and stopping at the first
  error the callback returns.
\<close>

definition walkFn ::
  "env \<Rightarrow> string \<Rightarrow> bool \<Rightarrow> error option \<Rightarrow> UnusedFuncFinder
     \<Rightarrow> (error option \<times> UnusedFuncFinder) option" where
  "walkFn e path isdir err uff =
     (if err = None \<and> \<not> isdir then
        (case canReadSourceFile path uff of
           (True, uff1) \<Rightarrow> readFuncsAndImportsFromFile e path uff1
         | (False, uff1) \<Rightarrow> Some (err, uff1))
      else Some (err, uff))"

fun readDir_walk ::
  "env \<Rightarrow> (string \<times> bool \<times> error option) list \<Rightarrow> UnusedFuncFinder
     \<Rightarrow> (error option \<times> UnusedFuncFinder) option" where
  "readDir_walk e [] uff = Some (None, uff)"
| "readDir_walk e ((path, isdir, err) # entries) uff =
     (case walkFn e path isdir err uff of
        None \<Rightarrow> None
      | Some (Some err', uff1) \<Rightarrow> Some (Some err', uff1)
      | Some (None, uff1) \<Rightarrow> readDir_walk e entries uff1)"

definition readDir ::
  "env \<Rightarrow> string \<Rightarrow> UnusedFuncFinder \<Rightarrow> (error option \<times> UnusedFuncFinder) option" where
  "readDir e dirname uff =
     readDir_walk e (filepath_Walk e dirname) (uff\<lparr>trace := trace uff @ [Walk dirname]\<rparr>)"

text \<open>The loop of \<^verbatim>\<open>Run\<close> over its arguments: the collection phase.\<close>

fun Run_collect :: "env \<Rightarrow> string list \<Rightarrow> UnusedFuncFinder \<Rightarrow> UnusedFuncFinder option" where
  "Run_collect e [] uff = Some uff"
| "Run_collect e (filename # fileArgs) uff =
     (let uff0 = uff\<lparr>trace := trace uff @ [Stat filename]\<rparr>
      in if os_Stat_IsDir e filename then
           (case readDir e filename uff0 of
              None \<Rightarrow> None
            | Some (Some err, uff1) \<Rightarrow>
                Run_collect e fileArgs
                  (Errorf Continuing (Errorf (ErrorReadingDirectory filename err) uff1))
            | Some (None, uff1) \<Rightarrow> Run_collect e fileArgs uff1)
         else
           (case canReadSourceFile filename uff0 of
              (True, uff1) \<Rightarrow>
                (case readFuncsAndImportsFromFile e filename uff1 of
                   None \<Rightarrow> None
                 | Some (Some err, uff2) \<Rightarrow>
                     Run_collect e fileArgs
                       (Errorf Continuing (Errorf (ErrorReadingFile filename err) uff2))
                 | Some (None, uff2) \<Rightarrow> Run_collect e fileArgs uff2)
            | (False, uff1) \<Rightarrow> Run_collect e fileArgs uff1))"

definition Run ::
  "env \<Rightarrow> string list \<Rightarrow> UnusedFuncFinder \<Rightarrow> (run_result \<times> UnusedFuncFinder) option" where
  "Run e fileArgs uff =
     (if length fileArgs = 0 then
        Some (([], Some NoFilesSupplied), Errorf MustSupplyFile uff)
      else if os_Getenv_GOPATH e = [] then
        Some (([], Some GopathNotSet), Errorf GopathUnset uff)
      else
        (case Run_collect e fileArgs (Logf CollectingFuncDecls uff) of
           None \<Rightarrow> None
         | Some uff1 \<Rightarrow>
             (let uff2 = Logf (ParsedSourceFiles (numFilesRead uff1)) uff1
              in if Idents uff2 then findUnusedIdents e uff2
                 else
                   (case getCallgraphFromOracle e
                           (Logf (RunningCallgraphAnalysis (pkgs uff2)) uff2) of
                      (Some err, uff3) \<Rightarrow> Some (([], Some err), Errorf (ErrorFromOracle err) uff3)
                    | (None, uff3) \<Rightarrow>
                        (let uff4 = Logf ScanningCallgraph (buildFileMap uff3);
                             unusedFuncs = computeUnusedFuncs uff4
                         in Some ((unusedFuncs, None), Logf EmptyLine uff4))))))"

section \<open>Notions used in the statements\<close>

text \<open>
  The Caller Index in the words of the specification: an edge whose qualified name holds
  the package separator \<open>.\<close> belongs to its short name, the part of the name after the
  last separator; the positions for a short name are the positions of its edges, in the
  order of the graph, with repetitions.
\<close>

definition hasSeparator :: "string \<Rightarrow> bool" where
  "hasSeparator qualifiedName = (CHR ''.'' \<in> set qualifiedName)"

definition shortName :: "string \<Rightarrow> string" where
  "shortName qualifiedName = rev (takeWhile (\<lambda>c. c \<noteq> CHR ''.'') (rev qualifiedName))"

definition positionsFor :: "CallGraph list \<Rightarrow> string \<Rightarrow> string list" where
  "positionsFor graph k =
     map cg_Pos
       (filter (\<lambda>entry. hasSeparator (cg_Name entry) \<and> shortName (cg_Name entry) = k) graph)"

text \<open>
  The exclusion rule in the words of the specification: a name that contains \<open>Test\<close>, or
  is exactly \<open>main\<close>, \<open>init\<close> or \<open>test\<close>.
\<close>

definition excludedName :: "string \<Rightarrow> bool" where
  "excludedName s = (Contains s ''Test'' \<or> s = ''main'' \<or> s = ''init'' \<or> s = ''test'')"

text \<open>The names of the function declarations among the nodes of a file, in order.\<close>

fun funcDeclNames :: "Node list \<Rightarrow> string list" where
  "funcDeclNames [] = []"
| "funcDeclNames (FuncDecl name # ns) = name # funcDeclNames ns"
| "funcDeclNames (OtherNode # ns) = funcDeclNames ns"

text \<open>The oracle queries of a trace, in order.\<close>

fun queries :: "event list \<Rightarrow> string set list" where
  "queries [] = []"
| "queries (Query ps # evs) = ps # queries evs"
| "queries (ev # evs) = queries evs"

text \<open>The files handed to the parser in a trace, in order.\<close>

fun parses :: "event list \<Rightarrow> string list" where
  "parses [] = []"
| "parses (Parse p # evs) = p # parses evs"
| "parses (ev # evs) = parses evs"

text \<open>
  What the collection phase leaves alone and what it may do: the options, the call graph
  and the caller index stay as they are, no oracle query is made, and \<^verbatim>\<open>funcs\<close> only
  grows, by records whose names are not empty and not excluded.
\<close>

definition same_config :: "UnusedFuncFinder \<Rightarrow> UnusedFuncFinder \<Rightarrow> bool" where
  "same_config a b =
     (Callgraph b = Callgraph a \<and> Ignore b = Ignore a \<and> Verbose b = Verbose a
      \<and> IncludeAll b = IncludeAll a \<and> CallgraphJSON b = CallgraphJSON a
      \<and> Idents b = Idents a \<and> ExportedOnly b = ExportedOnly a
      \<and> SkipMethods b = SkipMethods a \<and> filesByCaller b = filesByCaller a)"

definition collected :: "UnusedFuncFinder \<Rightarrow> UnusedFuncFinder \<Rightarrow> bool" where
  "collected a b =
     (same_config a b \<and> queries (trace b) = queries (trace a)
      \<and> (\<exists>new. funcs b = funcs a @ new
            \<and> (\<forall>d \<in> set new. Name d \<noteq> [] \<and> \<not> excludedName (Name d))))"

section \<open>An example world\<close>

text \<open>
  A small world to run the finder in. The source root is \<open>/g\<close>. The directory \<open>d\<close>
  holds \<open>a.go\<close>, which does not parse, \<open>b.go\<close> of package \<open>d\<close> and a text file.
  \<open>m.go\<close> is a main package under the source root, \<open>/x/n.go\<close> a main package outside
  of it. The oracle knows \<open>d.bar\<close> at a position in \<open>d/b.go\<close>.
\<close>

definition ex_Dir :: "string \<Rightarrow> string" where
  "ex_Dir p = (if CHR ''/'' \<in> set p then rev (drop 1 (dropWhile (\<lambda>c. c \<noteq> CHR ''/'') (rev p))) else ''.'')"

definition ex_env :: env where
  "ex_env =
     \<lparr>os_Getenv_GOPATH = ''/g'',
      os_Stat_IsDir = (\<lambda>p. p = ''d''),
      filepath_Walk = (\<lambda>root.
        if root = ''d'' then
          [(''d'', True, None), (''d/a.go'', False, None), (''d/b.go'', False, None),
           (''d/c.txt'', False, None)]
        else [(root, False, Some (ExternalError ''lstat''))]),
      parser_ParseFile = (\<lambda>p.
        if p = ''d/a.go'' then Inl (ExternalError ''expected declaration'')
        else if p = ''d/b.go'' then
          Inr \<lparr>file_Name = ''d'',
               file_Nodes = [OtherNode, FuncDecl ''foo'', OtherNode, FuncDecl ''TestFoo'',
                             FuncDecl ''bar'', OtherNode]\<rparr>
        else if p = ''m.go'' then
          Inr \<lparr>file_Name = ''main'',
               file_Nodes = [FuncDecl ''main'', FuncDecl ''init'', FuncDecl ''run'']\<rparr>
        else if p = ''/x/n.go'' then
          Inr \<lparr>file_Name = ''main'', file_Nodes = [FuncDecl ''main'', FuncDecl ''foo'']\<rparr>
        else Inl (ExternalError ''open'')),
      filepath_Abs = (\<lambda>p. Inr (if HasPrefix p ''/'' then p else ''/g/src/'' @ p)),
      filepath_Join = (\<lambda>a b. a @ ''/'' @ b),
      filepath_Dir = ex_Dir,
      filepath_Separator = CHR ''/'',
      oracle_Query = (\<lambda>ps.
        Inr (Some [\<lparr>cg_Name = ''d.bar'', cg_Pos = ''/g/src/d/b.go:3:6''\<rparr>,
                   \<lparr>cg_Name = ''main'', cg_Pos = ''-''\<rparr>])),
      findUnusedIdents = (\<lambda>uff. Some ((funcs uff, None), uff))\<rparr>"

section \<open>Properties\<close>

subsection \<open>The string functions meet their description\<close>

lemma HasPrefix_iff: "HasPrefix s p \<longleftrightarrow> (\<exists>b. s = p @ b)"
  by (induction s p rule: HasPrefix.induct) auto

lemma Contains_iff: "Contains s sub \<longleftrightarrow> (\<exists>a b. s = a @ sub @ b)"
proof (induction s)
  case Nil
  show ?case by auto
next
  case (Cons c s)
  show ?case
  proof
    assume "Contains (c # s) sub"
    then consider "HasPrefix (c # s) sub" | "Contains s sub" by auto
    then show "\<exists>a b. c # s = a @ sub @ b"
    proof cases
      case 1
      then obtain b where "c # s = sub @ b" by (auto simp: HasPrefix_iff)
      then have "c # s = [] @ sub @ b" by simp
      then show ?thesis by blast
    next
      case 2
      then obtain a b where "s = a @ sub @ b" using Cons.IH by blast
      then have "c # s = (c # a) @ sub @ b" by simp
      then show ?thesis by blast
    qed
  next
    assume "\<exists>a b. c # s = a @ sub @ b"
    then obtain a b where ab: "c # s = a @ sub @ b" by blast
    show "Contains (c # s) sub"
    proof (cases a)
      case Nil
      with ab have "HasPrefix (c # s) sub" by (auto simp: HasPrefix_iff)
      then show ?thesis by simp
    next
      case (Cons x a')
      with ab have "s = a' @ sub @ b" by simp
      then have "Contains s sub" using Cons.IH by blast
      then show ?thesis by simp
    qed
  qed
qed

lemma isInCG_loop_iff: "isInCG_loop files file \<longleftrightarrow> (\<exists>p \<in> set files. Contains p file)"
  by (induction files) auto

lemma computeUnusedFuncs_loop_filter:
  "computeUnusedFuncs_loop uff fs unused = unused @ filter (\<lambda>f. \<not> isInCG uff f) fs"
  by (induction fs arbitrary: unused) auto

lemma LastIndex_char:
  "- 1 \<le> LastIndex s [c] \<and> LastIndex s [c] < int (length s) \<and> (0 \<le> LastIndex s [c] \<longleftrightarrow> c \<in> set s)"
  by (induction s) (auto simp: Let_def)

lemma LastIndex_drop:
  "c \<in> set s \<Longrightarrow> drop (nat (LastIndex s [c] + 1)) s = rev (takeWhile (\<lambda>x. x \<noteq> c) (rev s))"
proof (induction s)
  case Nil
  then show ?case by simp
next
  case (Cons x s)
  show ?case
  proof (cases "c \<in> set s")
    case True
    then have "0 \<le> LastIndex s [c]" using LastIndex_char[of s c] by simp
    then have "nat (LastIndex (x # s) [c] + 1) = Suc (nat (LastIndex s [c] + 1))"
      by (simp add: Let_def nat_add_distrib)
    moreover have "takeWhile (\<lambda>x. x \<noteq> c) (rev s @ [x]) = takeWhile (\<lambda>x. x \<noteq> c) (rev s)"
      using True by (simp add: takeWhile_append1)
    ultimately show ?thesis using Cons.IH[OF True] by simp
  next
    case False
    then have neg: "\<not> 0 \<le> LastIndex s [c]" using LastIndex_char[of s c] by simp
    from False Cons.prems have xc: "x = c" by simp
    have "takeWhile (\<lambda>x. x \<noteq> c) (rev s @ [x]) = rev s"
      using False xc by (subst takeWhile_append2) auto
    then show ?thesis using neg xc by (simp add: Let_def)
  qed
qed


subsection \<open>The Unused-Set Computer\<close>

lemma isInCG_iff:
  "isInCG uff f \<longleftrightarrow>
     (\<exists>files. filesByCaller uff (Name f) = Some files \<and> (\<exists>p \<in> set files. Contains p (File f)))"
  by (simp add: isInCG_def isInCG_loop_iff split: option.splits)

lemma computeUnusedFuncs_filter:
  "computeUnusedFuncs uff = filter (\<lambda>f. \<not> isInCG uff f) (funcs uff)"
  by (simp add: computeUnusedFuncs_def computeUnusedFuncs_loop_filter)

text \<open>
  C8. The findings that \<^verbatim>\<open>computeUnusedFuncs\<close> returns are the collected records that
  are not in the call graph, in the order in which they were collected: the list is the
  collected list with the used records left out, and so a subsequence of it. Nothing sorts
  it.
\<close>

theorem computeUnusedFuncs_keeps_order:
  "computeUnusedFuncs uff = filter (\<lambda>f. \<not> isInCG uff f) (funcs uff)
   \<and> subseq (computeUnusedFuncs uff) (funcs uff)"
  by (simp add: computeUnusedFuncs_filter)

subsection \<open>The Caller Index Builder\<close>

lemma shortName_splits:
  assumes "hasSeparator n"
  shows "\<exists>pre. n = pre @ ''.'' @ shortName n" and "\<not> hasSeparator (shortName n)"
proof -
  let ?P = "\<lambda>c. c \<noteq> CHR ''.''"
  have "rev n = takeWhile ?P (rev n) @ dropWhile ?P (rev n)" by simp
  moreover have "dropWhile ?P (rev n) \<noteq> []" using assms by (auto simp: hasSeparator_def)
  then obtain r where r: "dropWhile ?P (rev n) = CHR ''.'' # r"
    using hd_dropWhile[of ?P "rev n"] by (cases "dropWhile ?P (rev n)") auto
  ultimately have "rev n = takeWhile ?P (rev n) @ CHR ''.'' # r" by simp
  then have "rev (rev n) = rev (takeWhile ?P (rev n) @ CHR ''.'' # r)" by simp
  then have "n = rev r @ ''.'' @ shortName n" by (simp add: shortName_def)
  then show "\<exists>pre. n = pre @ ''.'' @ shortName n" by blast
  show "\<not> hasSeparator (shortName n)"
    using set_takeWhileD[of "CHR ''.''" ?P "rev n"] by (auto simp: shortName_def hasSeparator_def)
qed

lemma buildFileMap_entry_key:
  "LastIndex n ''.'' + 1 \<noteq> 0 \<longleftrightarrow> hasSeparator n"
  using LastIndex_char[of n "CHR ''.''"] by (auto simp: hasSeparator_def)

lemma buildFileMap_entry_short:
  "hasSeparator n \<Longrightarrow> drop (nat (LastIndex n ''.'' + 1)) n = shortName n"
  by (simp add: hasSeparator_def shortName_def LastIndex_drop)

lemma buildFileMap_entry_frame:
  "buildFileMap_entry entry uff = uff\<lparr>filesByCaller := filesByCaller (buildFileMap_entry entry uff)\<rparr>"
  by (simp add: buildFileMap_entry_def Let_def)

lemma buildFileMap_entry_lookup:
  "filesByCaller (buildFileMap_entry entry uff) k =
     (if hasSeparator (cg_Name entry) \<and> shortName (cg_Name entry) = k
      then Some ((case filesByCaller uff k of None \<Rightarrow> [] | Some files \<Rightarrow> files) @ [cg_Pos entry])
      else filesByCaller uff k)"
  using buildFileMap_entry_key[of "cg_Name entry"] buildFileMap_entry_short[of "cg_Name entry"]
  by (auto simp: buildFileMap_entry_def Let_def)

lemma buildFileMap_loop_frame:
  "buildFileMap_loop graph uff = uff\<lparr>filesByCaller := filesByCaller (buildFileMap_loop graph uff)\<rparr>"
proof (induction graph arbitrary: uff)
  case Nil
  show ?case by simp
next
  case (Cons entry graph)
  let ?u = "buildFileMap_entry entry uff"
  have "buildFileMap_loop graph ?u = ?u\<lparr>filesByCaller := filesByCaller (buildFileMap_loop graph ?u)\<rparr>"
    by (rule Cons.IH)
  also have "\<dots> = uff\<lparr>filesByCaller := filesByCaller (buildFileMap_loop graph ?u)\<rparr>"
    by (subst buildFileMap_entry_frame) simp
  finally show ?case by simp
qed

lemma buildFileMap_loop_lookup:
  "filesByCaller (buildFileMap_loop graph uff) k =
     (if positionsFor graph k = [] then filesByCaller uff k
      else Some ((case filesByCaller uff k of None \<Rightarrow> [] | Some files \<Rightarrow> files) @ positionsFor graph k))"
proof (induction graph arbitrary: uff)
  case Nil
  show ?case by (simp add: positionsFor_def)
next
  case (Cons entry graph)
  show ?case
    by (simp add: Cons.IH buildFileMap_entry_lookup) (simp add: positionsFor_def)
qed

text \<open>
  C5. After \<^verbatim>\<open>buildFileMap\<close> the index holds, for every short name, what it held before
  followed by the positions of the edges of the graph that have a separator and that short
  name, in the order of the graph and with repetitions; a short name with no such edge
  keeps its entry. Edges without a separator add nothing, and nothing but the index
  changes: no line is logged for them.
\<close>

theorem buildFileMap_index:
  "filesByCaller (buildFileMap uff) k =
     (if positionsFor (Callgraph uff) k = [] then filesByCaller uff k
      else Some ((case filesByCaller uff k of None \<Rightarrow> [] | Some files \<Rightarrow> files)
                   @ positionsFor (Callgraph uff) k))
   \<and> buildFileMap uff = uff\<lparr>filesByCaller := filesByCaller (buildFileMap uff)\<rparr>"
  unfolding buildFileMap_def using buildFileMap_loop_frame buildFileMap_loop_lookup by blast

text \<open>
  An example: two edges for \<open>f\<close> from different packages, one edge without a separator,
  and a name with two separators.
\<close>

lemma buildFileMap_example:
  "map (filesByCaller
          (buildFileMap
             (NewUnusedFunctionFinder
                \<lparr>Callgraph := [\<lparr>cg_Name = ''a.f'', cg_Pos = ''p1''\<rparr>, \<lparr>cg_Name = ''g'', cg_Pos = ''p2''\<rparr>,
                                \<lparr>cg_Name = ''b.f'', cg_Pos = ''p3''\<rparr>, \<lparr>cg_Name = ''a.f'', cg_Pos = ''p1''\<rparr>,
                                \<lparr>cg_Name = ''x.y.h'', cg_Pos = ''p4''\<rparr>]\<rparr>)))
     [''f'', ''g'', ''h'', ''y.h'']
   = [Some [''p1'', ''p3'', ''p1''], None, Some [''p4''], None]"
  by (simp add: buildFileMap_def buildFileMap_entry_def NewUnusedFunctionFinder_def Let_def)

subsection \<open>The collection phase\<close>

lemma queries_append: "queries (xs @ ys) = queries xs @ queries ys"
  by (induction xs rule: queries.induct) auto

lemma collected_refl: "collected a a"
  by (simp add: collected_def same_config_def)

lemma same_config_trans: "same_config a b \<Longrightarrow> same_config b c \<Longrightarrow> same_config a c"
  by (simp add: same_config_def)

lemma collected_trans:
  assumes ab: "collected a b" and bc: "collected b c"
  shows "collected a c"
proof -
  from ab obtain n1 where n1: "funcs b = funcs a @ n1"
    "\<forall>d \<in> set n1. Name d \<noteq> [] \<and> \<not> excludedName (Name d)"
    unfolding collected_def by blast
  from bc obtain n2 where n2: "funcs c = funcs b @ n2"
    "\<forall>d \<in> set n2. Name d \<noteq> [] \<and> \<not> excludedName (Name d)"
    unfolding collected_def by blast
  have "funcs c = funcs a @ (n1 @ n2)" using n1(1) n2(1) by simp
  moreover have "\<forall>d \<in> set (n1 @ n2). Name d \<noteq> [] \<and> \<not> excludedName (Name d)"
    using n1(2) n2(2) by auto
  moreover have "same_config a c"
    using ab bc same_config_trans unfolding collected_def by blast
  moreover have "queries (trace c) = queries (trace a)"
    using ab bc unfolding collected_def by simp
  ultimately show ?thesis unfolding collected_def by blast
qed

lemma collected_trace:
  "queries evs = [] \<Longrightarrow> collected a (a\<lparr>trace := trace a @ evs\<rparr>)"
  by (simp add: collected_def same_config_def queries_append)

lemma collected_Errorf: "collected a (Errorf l a)"
  unfolding Errorf_def by (rule collected_trace) simp

lemma collected_Logf: "collected a (Logf l a)"
  unfolding Logf_def using collected_trace[of "[Log l]" a] by (simp add: collected_refl)

lemma collected_AddPkg: "collected a (AddPkg p a)"
  unfolding AddPkg_def
  by (rule collected_trans[OF _ collected_Logf]) (simp add: collected_def same_config_def)

lemma collected_inspectNode: "collected a (inspectNode filename n a)"
  by (cases n) (auto simp: inspectNode_def collected_def same_config_def excludedName_def)

lemma collected_Inspect: "collected a (Inspect filename ns a)"
proof (induction ns arbitrary: a)
  case Nil
  show ?case by (simp add: collected_refl)
next
  case (Cons n ns)
  show ?case using collected_trans[OF collected_inspectNode Cons.IH] by simp
qed

lemma collected_numFilesRead: "collected a (a\<lparr>numFilesRead := n\<rparr>)"
  by (simp add: collected_def same_config_def)

lemma collected_readFuncs:
  assumes "readFuncsAndImportsFromFile e filename a = Some (r, b)"
  shows "collected a b"
proof -
  let ?a1 = "a\<lparr>trace := trace a @ [Parse filename]\<rparr>"
  have a1: "collected a ?a1" by (rule collected_trace) simp
  have ins: "\<And>u ns. collected a u \<Longrightarrow>
      collected a ((Inspect filename ns u)\<lparr>numFilesRead := numFilesRead (Inspect filename ns u) + 1\<rparr>)"
    by (blast intro: collected_trans collected_Inspect collected_numFilesRead)
  have add: "\<And>p. collected a (AddPkg p ?a1)"
    by (blast intro: collected_trans a1 collected_AddPkg)
  from assms show ?thesis
    by (auto simp: readFuncsAndImportsFromFile_def Let_def a1 ins add
             split: sum.splits if_splits option.splits)
qed

lemma collected_canReadSourceFile:
  "canReadSourceFile filename a = (ok, b) \<Longrightarrow> collected a b"
  by (auto simp: canReadSourceFile_def collected_refl collected_Logf split: if_splits)

lemma collected_walkFn:
  assumes "walkFn e path isdir err a = Some (r, b)"
  shows "collected a b"
proof (cases "err = None \<and> \<not> isdir")
  case False
  with assms show ?thesis by (auto simp: walkFn_def collected_refl)
next
  case True
  obtain ok a1 where c: "canReadSourceFile path a = (ok, a1)" by (cases "canReadSourceFile path a")
  have a1: "collected a a1" using c by (rule collected_canReadSourceFile)
  show ?thesis
  proof (cases ok)
    case True
    with assms c \<open>err = None \<and> \<not> isdir\<close> have "readFuncsAndImportsFromFile e path a1 = Some (r, b)"
      by (simp add: walkFn_def)
    then show ?thesis using a1 collected_readFuncs collected_trans by blast
  next
    case False
    with assms c \<open>err = None \<and> \<not> isdir\<close> have "b = a1" by (simp add: walkFn_def)
    then show ?thesis using a1 by simp
  qed
qed

lemma collected_readDir_walk:
  "readDir_walk e entries a = Some (r, b) \<Longrightarrow> collected a b"
proof (induction entries arbitrary: a)
  case Nil
  then show ?case by (simp add: collected_refl)
next
  case (Cons entry entries)
  obtain path isdir err where entry: "entry = (path, isdir, err)" by (cases entry)
  from Cons.prems entry obtain r1 a1 where w: "walkFn e path isdir err a = Some (r1, a1)"
    by (auto split: option.splits)
  have a1: "collected a a1" using w by (rule collected_walkFn)
  show ?case
  proof (cases r1)
    case None
    with Cons.prems entry w have "readDir_walk e entries a1 = Some (r, b)" by simp
    then show ?thesis using Cons.IH a1 collected_trans by blast
  next
    case (Some err')
    with Cons.prems entry w have "b = a1" by simp
    then show ?thesis using a1 by simp
  qed
qed

lemma collected_readDir: "readDir e dirname a = Some (r, b) \<Longrightarrow> collected a b"
  unfolding readDir_def
  using collected_trans[OF collected_trace[of "[Walk dirname]" a] collected_readDir_walk]
  by simp

lemma collected_Run_collect: "Run_collect e fileArgs a = Some b \<Longrightarrow> collected a b"
proof (induction fileArgs arbitrary: a)
  case Nil
  then show ?case by (simp add: collected_refl)
next
  case (Cons filename fileArgs)
  let ?a0 = "a\<lparr>trace := trace a @ [Stat filename]\<rparr>"
  have a0: "collected a ?a0" by (rule collected_trace) simp
  show ?case
  proof (cases "os_Stat_IsDir e filename")
    case True
    with Cons.prems obtain r a1 where rd: "readDir e filename ?a0 = Some (r, a1)"
      by (auto simp: Let_def split: option.splits)
    have a1: "collected a a1" using a0 collected_readDir[OF rd] collected_trans by blast
    show ?thesis
    proof (cases r)
      case None
      with Cons.prems True rd have "Run_collect e fileArgs a1 = Some b" by (simp add: Let_def)
      then show ?thesis using Cons.IH a1 collected_trans by blast
    next
      case (Some err)
      let ?a2 = "Errorf Continuing (Errorf (ErrorReadingDirectory filename err) a1)"
      from Some Cons.prems True rd have "Run_collect e fileArgs ?a2 = Some b" by (simp add: Let_def)
      moreover have "collected a ?a2" using a1 collected_Errorf collected_trans by blast
      ultimately show ?thesis using Cons.IH collected_trans by blast
    qed
  next
    case False
    obtain ok a1 where c: "canReadSourceFile filename ?a0 = (ok, a1)"
      by (cases "canReadSourceFile filename ?a0")
    have a1: "collected a a1" using a0 collected_canReadSourceFile[OF c] collected_trans by blast
    show ?thesis
    proof (cases ok)
      case False
      with Cons.prems \<open>\<not> os_Stat_IsDir e filename\<close> c have "Run_collect e fileArgs a1 = Some b"
        by (simp add: Let_def)
      then show ?thesis using Cons.IH a1 collected_trans by blast
    next
      case True
      with Cons.prems \<open>\<not> os_Stat_IsDir e filename\<close> c
      obtain r a2 where rf: "readFuncsAndImportsFromFile e filename a1 = Some (r, a2)"
        by (auto simp: Let_def split: option.splits)
      have a2: "collected a a2" using a1 collected_readFuncs[OF rf] collected_trans by blast
      show ?thesis
      proof (cases r)
        case None
        with Cons.prems \<open>\<not> os_Stat_IsDir e filename\<close> c True rf
        have "Run_collect e fileArgs a2 = Some b" by (simp add: Let_def)
        then show ?thesis using Cons.IH a2 collected_trans by blast
      next
        case (Some err)
        let ?a3 = "Errorf Continuing (Errorf (ErrorReadingFile filename err) a2)"
        from Some Cons.prems \<open>\<not> os_Stat_IsDir e filename\<close> c True rf
        have "Run_collect e fileArgs ?a3 = Some b" by (simp add: Let_def)
        moreover have "collected a ?a3" using a2 collected_Errorf collected_trans by blast
        ultimately show ?thesis using Cons.IH collected_trans by blast
      qed
    qed
  qed
qed


subsection \<open>The sanity checks of Run\<close>

text \<open>
  C6. With no input path, or with \<^verbatim>\<open>GOPATH\<close> unset or empty, \<^verbatim>\<open>Run\<close> returns an
  error and no findings, and the only thing it has done is to write one line to the log
  sink: the finder is otherwise as it was, and the trace has no call of the file system,
  the parser or the oracle.
\<close>

theorem Run_sanity_checks:
  assumes "fileArgs = [] \<or> os_Getenv_GOPATH e = []"
  shows "Run e fileArgs uff =
           Some (([], Some (if fileArgs = [] then NoFilesSupplied else GopathNotSet)),
                 uff\<lparr>trace := trace uff
                        @ [Log (if fileArgs = [] then MustSupplyFile else GopathUnset)]\<rparr>)"
  using assms by (auto simp: Run_def Errorf_def)

theorem Run_sanity_checks_witness:
  "Run ex_env [] NewUnusedFunctionFinder =
     Some (([], Some NoFilesSupplied),
           NewUnusedFunctionFinder\<lparr>trace := [Log MustSupplyFile]\<rparr>)
   \<and> Run (ex_env\<lparr>os_Getenv_GOPATH := []\<rparr>) [''d''] NewUnusedFunctionFinder =
     Some (([], Some GopathNotSet),
           NewUnusedFunctionFinder\<lparr>trace := [Log GopathUnset]\<rparr>)"
  using Run_sanity_checks[of "[]" ex_env NewUnusedFunctionFinder]
    Run_sanity_checks[of "[''d'']" "ex_env\<lparr>os_Getenv_GOPATH := []\<rparr>" NewUnusedFunctionFinder]
  by (simp add: NewUnusedFunctionFinder_def)

subsection \<open>A package path that cannot be derived\<close>

lemma ex_env_n_pkg: "getFullPkgName ex_env ''/x/n.go'' = Some (Inl (CdAndTryAgain ''/g''))"
  by (simp add: getFullPkgName_def ex_env_def SplitList_def index_def)

text \<open>
  C10. When a file parses, belongs to package \<open>main\<close> or is read with include-all on, and
  its package path cannot be derived, \<^verbatim>\<open>readFuncsAndImportsFromFile\<close> returns the
  wrapped error and the finder is as it was but for the call of the parser in the trace:
  no record is added, no package is registered, the counter of files is not incremented
  and nothing is logged.
\<close>

theorem readFuncs_package_error:
  assumes "parser_ParseFile e filename = Inr f"
    and "file_Name f = ''main'' \<or> IncludeAll uff"
    and "getFullPkgName e filename = Some (Inl err)"
  shows "readFuncsAndImportsFromFile e filename uff =
           Some (Some (MainPackagePath err), uff\<lparr>trace := trace uff @ [Parse filename]\<rparr>)"
  using assms by (auto simp: readFuncsAndImportsFromFile_def)

theorem readFuncs_package_error_witness:
  "readFuncsAndImportsFromFile ex_env ''/x/n.go'' NewUnusedFunctionFinder =
     Some (Some (MainPackagePath (CdAndTryAgain ''/g'')),
           NewUnusedFunctionFinder\<lparr>trace := [Parse ''/x/n.go'']\<rparr>)
   \<and> readFuncsAndImportsFromFile ex_env ''/x/n.go'' (NewUnusedFunctionFinder\<lparr>IncludeAll := True\<rparr>) =
     Some (Some (MainPackagePath (CdAndTryAgain ''/g'')),
           NewUnusedFunctionFinder\<lparr>IncludeAll := True, trace := [Parse ''/x/n.go'']\<rparr>)"
proof -
  have p: "parser_ParseFile ex_env ''/x/n.go'' =
      Inr \<lparr>file_Name = ''main'', file_Nodes = [FuncDecl ''main'', FuncDecl ''foo'']\<rparr>"
    by (simp add: ex_env_def)
  show ?thesis
    using readFuncs_package_error[OF p _ ex_env_n_pkg, of NewUnusedFunctionFinder]
      readFuncs_package_error[OF p _ ex_env_n_pkg, of "NewUnusedFunctionFinder\<lparr>IncludeAll := True\<rparr>"]
    by (simp add: NewUnusedFunctionFinder_def)
qed

subsection \<open>The roots of the source tree\<close>

lemma Split_nonempty: "Split s sep \<noteq> []"
  by (induction s) (auto split: list.splits)

lemma SplitList_empty_iff: "SplitList path = [] \<longleftrightarrow> path = []"
  by (simp add: SplitList_def Split_nonempty)

lemma index_last: "xs \<noteq> [] \<Longrightarrow> index xs (int (length xs) - 1) = Some (last xs)"
proof -
  assume ne: "xs \<noteq> []"
  then have "nat (int (length xs) - 1) = length xs - 1" by simp
  moreover have "0 \<le> int (length xs) - 1" using ne by (cases xs) auto
  ultimately show ?thesis using ne by (simp add: index_def last_conv_nth)
qed

lemma index_of_empty: "index [] (int (length []) - 1) = None"
  by (simp add: index_def)

lemma getFullPkgName_total:
  assumes "SplitList (os_Getenv_GOPATH e) \<noteq> []"
  shows "\<exists>r. getFullPkgName e filename = Some r"
  using index_last[OF assms]
  by (simp add: getFullPkgName_def Let_def split: sum.splits option.splits)

lemma getFullPkgName_panics:
  assumes "SplitList (os_Getenv_GOPATH e) = []" and "filepath_Abs e filename = Inr a"
  shows "getFullPkgName e filename = None"
  using assms by (simp add: getFullPkgName_def index_def)

lemma readFuncs_total:
  assumes "os_Getenv_GOPATH e \<noteq> []"
  shows "\<exists>r b. readFuncsAndImportsFromFile e filename a = Some (r, b)"
proof -
  have "SplitList (os_Getenv_GOPATH e) \<noteq> []" using assms by (simp add: SplitList_empty_iff)
  then obtain r where "getFullPkgName e filename = Some r"
    using getFullPkgName_total by blast
  then show ?thesis
    by (cases r) (simp_all add: readFuncsAndImportsFromFile_def Let_def split: sum.splits)
qed

lemma walkFn_total:
  assumes "os_Getenv_GOPATH e \<noteq> []"
  shows "\<exists>r b. walkFn e path isdir err a = Some (r, b)"
  using readFuncs_total[OF assms]
  by (simp add: walkFn_def split: prod.splits bool.splits)

lemma readDir_walk_total:
  assumes "os_Getenv_GOPATH e \<noteq> []"
  shows "\<exists>r b. readDir_walk e entries a = Some (r, b)"
proof (induction entries arbitrary: a)
  case Nil
  show ?case by simp
next
  case (Cons entry entries)
  obtain path isdir err where entry: "entry = (path, isdir, err)" by (cases entry)
  obtain r1 a1 where w: "walkFn e path isdir err a = Some (r1, a1)"
    using walkFn_total[OF assms] by blast
  show ?case using Cons.IH[of a1] by (cases r1) (simp_all add: entry w)
qed

lemma readDir_total:
  "os_Getenv_GOPATH e \<noteq> [] \<Longrightarrow> \<exists>r b. readDir e dirname a = Some (r, b)"
  by (simp add: readDir_def readDir_walk_total)

lemma Run_collect_total:
  assumes "os_Getenv_GOPATH e \<noteq> []"
  shows "\<exists>b. Run_collect e fileArgs a = Some b"
proof (induction fileArgs arbitrary: a)
  case Nil
  show ?case by simp
next
  case (Cons filename fileArgs)
  let ?a0 = "a\<lparr>trace := trace a @ [Stat filename]\<rparr>"
  show ?case
  proof (cases "os_Stat_IsDir e filename")
    case True
    obtain r a1 where rd: "readDir e filename ?a0 = Some (r, a1)"
      using readDir_total[OF assms] by blast
    show ?thesis using True rd Cons.IH by (cases r) (simp_all add: Let_def)
  next
    case False
    obtain ok a1 where c: "canReadSourceFile filename ?a0 = (ok, a1)"
      by (cases "canReadSourceFile filename ?a0")
    obtain r a2 where rf: "readFuncsAndImportsFromFile e filename a1 = Some (r, a2)"
      using readFuncs_total[OF assms] by blast
    show ?thesis using False c rf Cons.IH by (cases ok; cases r) (simp_all add: Let_def)
  qed
qed

text \<open>
  C9. With a non-empty list of roots the read of \<^verbatim>\<open>goPaths[len(goPaths)-1]\<close> is in
  bounds (it gives the last root) and \<^verbatim>\<open>getFullPkgName\<close> returns, a package or an error.
  With the empty list the read is out of bounds, and \<^verbatim>\<open>getFullPkgName\<close> panics whenever
  the absolute path is found. A non-empty \<^verbatim>\<open>GOPATH\<close> gives a non-empty list, so the
  collection loop can only panic when \<^verbatim>\<open>GOPATH\<close> is empty, which the check at the head
  of \<^verbatim>\<open>Run\<close> excludes: a panic of \<^verbatim>\<open>Run\<close> can only come from the method that is not
  in the source file.
\<close>

theorem getFullPkgName_index_bounds:
  "(let goPaths = SplitList (os_Getenv_GOPATH e)
    in (goPaths \<noteq> [] \<longrightarrow>
          index goPaths (int (length goPaths) - 1) = Some (last goPaths)
          \<and> (\<exists>r. getFullPkgName e filename = Some r))
     \<and> (goPaths = [] \<longrightarrow>
          index goPaths (int (length goPaths) - 1) = None
          \<and> (\<forall>a. filepath_Abs e filename = Inr a \<longrightarrow> getFullPkgName e filename = None))
     \<and> (os_Getenv_GOPATH e \<noteq> [] \<longrightarrow> goPaths \<noteq> []))
   \<and> (Run_collect e fileArgs uff = None \<longrightarrow> os_Getenv_GOPATH e = [])
   \<and> (Run e fileArgs uff = None \<longrightarrow> (\<exists>u. findUnusedIdents e u = None))"
proof -
  have 1: "Run_collect e fileArgs uff = None \<longrightarrow> os_Getenv_GOPATH e = []"
  proof
    assume n: "Run_collect e fileArgs uff = None"
    show "os_Getenv_GOPATH e = []"
    proof (rule ccontr)
      assume "os_Getenv_GOPATH e \<noteq> []"
      then obtain b where "Run_collect e fileArgs uff = Some b"
        using Run_collect_total by blast
      with n show False by simp
    qed
  qed
  have 2: "Run e fileArgs uff = None \<longrightarrow> (\<exists>u. findUnusedIdents e u = None)"
  proof
    assume n: "Run e fileArgs uff = None"
    then have ne: "fileArgs \<noteq> []" "os_Getenv_GOPATH e \<noteq> []"
      by (auto simp: Run_def split: if_splits)
    then obtain b where b: "Run_collect e fileArgs (Logf CollectingFuncDecls uff) = Some b"
      using Run_collect_total by blast
    from n ne b show "\<exists>u. findUnusedIdents e u = None"
      by (auto simp: Run_def Let_def split: if_splits prod.splits option.splits)
  qed
  let ?goPaths = "SplitList (os_Getenv_GOPATH e)"
  have 3: "?goPaths \<noteq> [] \<longrightarrow>
      index ?goPaths (int (length ?goPaths) - 1) = Some (last ?goPaths)
      \<and> (\<exists>r. getFullPkgName e filename = Some r)"
    using index_last getFullPkgName_total by blast
  have 4: "?goPaths = [] \<longrightarrow>
      index ?goPaths (int (length ?goPaths) - 1) = None
      \<and> (\<forall>a. filepath_Abs e filename = Inr a \<longrightarrow> getFullPkgName e filename = None)"
    using getFullPkgName_panics[of e filename] by (simp add: index_def)
  have 5: "os_Getenv_GOPATH e \<noteq> [] \<longrightarrow> ?goPaths \<noteq> []"
    by (simp add: SplitList_empty_iff)
  show ?thesis unfolding Let_def using 1 2 3 4 5 by blast
qed


theorem getFullPkgName_index_bounds_witness:
  "getFullPkgName ex_env ''/x/n.go'' = Some (Inl (CdAndTryAgain ''/g''))
   \<and> index (SplitList ''/g'') (int (length (SplitList ''/g'')) - 1) = Some ''/g''
   \<and> getFullPkgName (ex_env\<lparr>os_Getenv_GOPATH := []\<rparr>) ''/x/n.go'' = None
   \<and> Run_collect (ex_env\<lparr>os_Getenv_GOPATH := []\<rparr>) [''/x/n.go''] NewUnusedFunctionFinder = None
   \<and> (\<exists>r. Run ex_env [''/x/n.go''] NewUnusedFunctionFinder = Some r)"
proof -
  let ?e0 = "ex_env\<lparr>os_Getenv_GOPATH := []\<rparr>"
  have g: "os_Getenv_GOPATH ex_env = ''/g''" "SplitList ''/g'' = [''/g'']"
    "os_Getenv_GOPATH ?e0 = []" "SplitList [] = []"
    by (simp_all add: ex_env_def SplitList_def)
  have a: "filepath_Abs ?e0 ''/x/n.go'' = Inr ''/x/n.go''"
    by (simp add: ex_env_def)
  have c: "Run_collect ?e0 [''/x/n.go''] NewUnusedFunctionFinder = None"
    by (simp add: ex_env_def NewUnusedFunctionFinder_def canReadSourceFile_def HasSuffix_def
        readFuncsAndImportsFromFile_def getFullPkgName_def SplitList_def index_def)
  have f: "\<And>u. findUnusedIdents ex_env u \<noteq> None"
    by (simp add: ex_env_def)
  have n: "getFullPkgName ex_env ''/x/n.go'' = Some (Inl (CdAndTryAgain ''/g''))"
    by (simp add: getFullPkgName_def ex_env_def SplitList_def index_def)
  have 1: "index (SplitList ''/g'') (int (length (SplitList ''/g'')) - 1) = Some ''/g''"
    and 2: "\<exists>r. Run ex_env [''/x/n.go''] NewUnusedFunctionFinder = Some r"
    using getFullPkgName_index_bounds[of ex_env "''/x/n.go''" "[''/x/n.go'']" NewUnusedFunctionFinder]
    unfolding Let_def g using f by auto
  have 3: "getFullPkgName ?e0 ''/x/n.go'' = None"
    using getFullPkgName_index_bounds[of ?e0 "''/x/n.go''" "[''/x/n.go'']" NewUnusedFunctionFinder] a
    unfolding Let_def g by blast
  show ?thesis using n 1 2 3 c by blast
qed


subsection \<open>Run after the sanity checks\<close>

lemma collectedD:
  assumes "collected a b"
  shows "Idents b = Idents a" "Callgraph b = Callgraph a" "filesByCaller b = filesByCaller a"
    "Verbose b = Verbose a" "queries (trace b) = queries (trace a)"
  using assms by (simp_all add: collected_def same_config_def)

lemma Logf_fields:
  "funcs (Logf l u) = funcs u" "filesByCaller (Logf l u) = filesByCaller u"
  "pkgs (Logf l u) = pkgs u" "Idents (Logf l u) = Idents u" "Callgraph (Logf l u) = Callgraph u"
  "numFilesRead (Logf l u) = numFilesRead u"
  "queries (trace (Logf l u)) = queries (trace u)"
  by (simp_all add: Logf_def queries_append)

lemma Errorf_fields:
  "funcs (Errorf l u) = funcs u" "filesByCaller (Errorf l u) = filesByCaller u"
  "pkgs (Errorf l u) = pkgs u" "Idents (Errorf l u) = Idents u" "Callgraph (Errorf l u) = Callgraph u"
  "queries (trace (Errorf l u)) = queries (trace u)"
  by (simp_all add: Errorf_def queries_append)

lemma computeUnusedFuncs_cong:
  "funcs a = funcs b \<Longrightarrow> filesByCaller a = filesByCaller b
   \<Longrightarrow> computeUnusedFuncs a = computeUnusedFuncs b"
  by (simp add: computeUnusedFuncs_filter isInCG_def)

lemma computeUnusedFuncs_Logf: "computeUnusedFuncs (Logf l u) = computeUnusedFuncs u"
  by (rule computeUnusedFuncs_cong) (simp_all add: Logf_fields)

lemma Run_with_idents:
  assumes "fileArgs \<noteq> []" and "os_Getenv_GOPATH e \<noteq> []" and "Idents uff"
  shows "\<exists>uff1. Run_collect e fileArgs (Logf CollectingFuncDecls uff) = Some uff1
           \<and> collected uff uff1
           \<and> Run e fileArgs uff = findUnusedIdents e (Logf (ParsedSourceFiles (numFilesRead uff1)) uff1)"
proof -
  obtain uff1 where c: "Run_collect e fileArgs (Logf CollectingFuncDecls uff) = Some uff1"
    using Run_collect_total[OF assms(2)] by blast
  have col: "collected uff uff1"
    using collected_trans[OF collected_Logf collected_Run_collect[OF c]] .
  then have "Idents uff1" using assms(3) by (simp add: collectedD)
  then have "Run e fileArgs uff = findUnusedIdents e (Logf (ParsedSourceFiles (numFilesRead uff1)) uff1)"
    using assms(1,2) c by (simp add: Run_def Let_def Logf_fields)
  with c col show ?thesis by blast
qed

lemma Run_without_idents:
  assumes "fileArgs \<noteq> []" and "os_Getenv_GOPATH e \<noteq> []" and "\<not> Idents uff"
  shows "\<exists>uff1. Run_collect e fileArgs (Logf CollectingFuncDecls uff) = Some uff1
           \<and> collected uff uff1
           \<and> Run e fileArgs uff =
               (case getCallgraphFromOracle e
                       (Logf (RunningCallgraphAnalysis (pkgs uff1))
                          (Logf (ParsedSourceFiles (numFilesRead uff1)) uff1)) of
                  (Some err, uff3) \<Rightarrow> Some (([], Some err), Errorf (ErrorFromOracle err) uff3)
                | (None, uff3) \<Rightarrow>
                    Some ((computeUnusedFuncs (buildFileMap uff3), None),
                          Logf EmptyLine (Logf ScanningCallgraph (buildFileMap uff3))))"
proof -
  obtain uff1 where c: "Run_collect e fileArgs (Logf CollectingFuncDecls uff) = Some uff1"
    using Run_collect_total[OF assms(2)] by blast
  have col: "collected uff uff1"
    using collected_trans[OF collected_Logf collected_Run_collect[OF c]] .
  then have "\<not> Idents uff1" using assms(3) by (simp add: collectedD)
  then have "Run e fileArgs uff =
               (case getCallgraphFromOracle e
                       (Logf (RunningCallgraphAnalysis (pkgs uff1))
                          (Logf (ParsedSourceFiles (numFilesRead uff1)) uff1)) of
                  (Some err, uff3) \<Rightarrow> Some (([], Some err), Errorf (ErrorFromOracle err) uff3)
                | (None, uff3) \<Rightarrow>
                    Some ((computeUnusedFuncs (buildFileMap uff3), None),
                          Logf EmptyLine (Logf ScanningCallgraph (buildFileMap uff3))))"
    using assms(1,2) c
    by (simp add: Run_def Let_def Logf_fields computeUnusedFuncs_Logf split: prod.splits option.splits)
  with c col show ?thesis by blast
qed

lemma Run_findings:
  assumes "Run e fileArgs uff = Some ((findings, None), uff')" and "\<not> Idents uff"
  shows "findings = computeUnusedFuncs uff'"
proof -
  from assms(1) have ne: "fileArgs \<noteq> []" "os_Getenv_GOPATH e \<noteq> []"
    by (auto simp: Run_def split: if_splits)
  let ?q = "\<lambda>uff1. getCallgraphFromOracle e
                       (Logf (RunningCallgraphAnalysis (pkgs uff1))
                          (Logf (ParsedSourceFiles (numFilesRead uff1)) uff1))"
  from Run_without_idents[OF ne assms(2)] obtain uff1 where
    r: "Run e fileArgs uff =
          (case ?q uff1 of
             (Some err, uff3) \<Rightarrow> Some (([], Some err), Errorf (ErrorFromOracle err) uff3)
           | (None, uff3) \<Rightarrow>
               Some ((computeUnusedFuncs (buildFileMap uff3), None),
                     Logf EmptyLine (Logf ScanningCallgraph (buildFileMap uff3))))"
    by blast
  obtain x uff3 where q: "?q uff1 = (x, uff3)" by (cases "?q uff1")
  show ?thesis
  proof (cases x)
    case (Some err)
    with r q assms(1) show ?thesis by simp
  next
    case None
    with r q assms(1) have "findings = computeUnusedFuncs (buildFileMap uff3)"
      and "uff' = Logf EmptyLine (Logf ScanningCallgraph (buildFileMap uff3))"
      by simp_all
    then show ?thesis by (simp add: computeUnusedFuncs_Logf)
  qed
qed

lemma getCallgraphFromOracle_cases:
  "getCallgraphFromOracle e u =
     (case oracle_Query e (pkgs u) of
        Inl err \<Rightarrow> (Some err, u\<lparr>trace := trace u @ [Query (pkgs u)]\<rparr>)
      | Inr None \<Rightarrow> (Some NoCallgraphPresent, u\<lparr>trace := trace u @ [Query (pkgs u)]\<rparr>)
      | Inr (Some cg) \<Rightarrow> (None, u\<lparr>trace := trace u @ [Query (pkgs u)], Callgraph := cg\<rparr>))"
  by (simp add: getCallgraphFromOracle_def Let_def split: sum.splits option.splits)

lemma buildFileMap_fields:
  "funcs (buildFileMap u) = funcs u" "trace (buildFileMap u) = trace u"
  "Callgraph (buildFileMap u) = Callgraph u"
  "filesByCaller (buildFileMap u) k =
     (if positionsFor (Callgraph u) k = [] then filesByCaller u k
      else Some ((case filesByCaller u k of None \<Rightarrow> [] | Some files \<Rightarrow> files)
                   @ positionsFor (Callgraph u) k))"
proof -
  have "buildFileMap u = u\<lparr>filesByCaller := filesByCaller (buildFileMap u)\<rparr>"
    unfolding buildFileMap_def by (rule buildFileMap_loop_frame)
  then have "funcs (buildFileMap u) = funcs (u\<lparr>filesByCaller := filesByCaller (buildFileMap u)\<rparr>)"
    "trace (buildFileMap u) = trace (u\<lparr>filesByCaller := filesByCaller (buildFileMap u)\<rparr>)"
    "Callgraph (buildFileMap u) = Callgraph (u\<lparr>filesByCaller := filesByCaller (buildFileMap u)\<rparr>)"
    by simp_all
  then show "funcs (buildFileMap u) = funcs u" "trace (buildFileMap u) = trace u"
    "Callgraph (buildFileMap u) = Callgraph u" by simp_all
  show "filesByCaller (buildFileMap u) k =
     (if positionsFor (Callgraph u) k = [] then filesByCaller u k
      else Some ((case filesByCaller u k of None \<Rightarrow> [] | Some files \<Rightarrow> files)
                   @ positionsFor (Callgraph u) k))"
    unfolding buildFileMap_def by (rule buildFileMap_loop_lookup)
qed

text \<open>Unfolding the definitions evaluates the finder in the example world.\<close>

lemmas ex_eval = Run_def ex_env_def NewUnusedFunctionFinder_def Logf_def Errorf_def AddPkg_def
  readDir_def walkFn_def canReadSourceFile_def HasSuffix_def readFuncsAndImportsFromFile_def
  getFullPkgName_def SplitList_def index_def TrimPrefix_def ex_Dir_def inspectNode_def
  getCallgraphFromOracle_def buildFileMap_def buildFileMap_entry_def Let_def

lemma ex_run_b:
  "Run ex_env [''d/b.go''] NewUnusedFunctionFinder =
     Some (([\<lparr>Name = ''foo'', File = ''d/b.go''\<rparr>], None),
           NewUnusedFunctionFinder
             \<lparr>Callgraph := [\<lparr>cg_Name = ''d.bar'', cg_Pos = ''/g/src/d/b.go:3:6''\<rparr>,
                            \<lparr>cg_Name = ''main'', cg_Pos = ''-''\<rparr>],
              filesByCaller := [''bar'' \<mapsto> [''/g/src/d/b.go:3:6'']],
              funcs := [\<lparr>Name = ''foo'', File = ''d/b.go''\<rparr>, \<lparr>Name = ''bar'', File = ''d/b.go''\<rparr>],
              numFilesRead := 1,
              trace := [Stat ''d/b.go'', Parse ''d/b.go'', Query {}]\<rparr>)"
  by (simp add: ex_eval computeUnusedFuncs_def isInCG_def)

subsection \<open>What Run reports\<close>

text \<open>
  C1. When \<^verbatim>\<open>Run\<close> returns findings and no error with identifiers-only mode off, a
  collected record is among the findings if and only if its name is not a key of the
  caller index or no position in its entry contains the record's file as a substring; and
  every finding is a collected record. The index and the records are those the finder holds
  at the end of the run.
\<close>

theorem Run_reports_unused:
  assumes "Run e fileArgs uff = Some ((findings, None), uff')" and "\<not> Idents uff"
  shows "(\<forall>d \<in> set (funcs uff').
            d \<in> set findings \<longleftrightarrow>
              (case filesByCaller uff' (Name d) of
                 None \<Rightarrow> True
               | Some positions \<Rightarrow> \<forall>p \<in> set positions. \<not> Contains p (File d)))
         \<and> set findings \<subseteq> set (funcs uff')"
  unfolding Run_findings[OF assms] computeUnusedFuncs_filter
  by (auto simp: isInCG_iff split: option.splits)


theorem Run_reports_unused_witness:
  "\<exists>findings uff'.
      Run ex_env [''d/b.go''] NewUnusedFunctionFinder = Some ((findings, None), uff')
      \<and> \<not> Idents NewUnusedFunctionFinder
      \<and> filesByCaller uff' ''foo'' = None
      \<and> \<lparr>Name = ''foo'', File = ''d/b.go''\<rparr> \<in> set findings
      \<and> filesByCaller uff' ''bar'' = Some [''/g/src/d/b.go:3:6'']
      \<and> \<lparr>Name = ''bar'', File = ''d/b.go''\<rparr> \<notin> set findings"
proof -
  let ?foo = "\<lparr>Name = ''foo'', File = ''d/b.go''\<rparr>"
  let ?bar = "\<lparr>Name = ''bar'', File = ''d/b.go''\<rparr>"
  let ?U = "NewUnusedFunctionFinder
             \<lparr>Callgraph := [\<lparr>cg_Name = ''d.bar'', cg_Pos = ''/g/src/d/b.go:3:6''\<rparr>,
                            \<lparr>cg_Name = ''main'', cg_Pos = ''-''\<rparr>],
              filesByCaller := [''bar'' \<mapsto> [''/g/src/d/b.go:3:6'']],
              funcs := [?foo, ?bar],
              numFilesRead := 1,
              trace := [Stat ''d/b.go'', Parse ''d/b.go'', Query {}]\<rparr>"
  have i: "\<not> Idents NewUnusedFunctionFinder" by (simp add: NewUnusedFunctionFinder_def)
  have f: "filesByCaller ?U ''foo'' = None"
    "filesByCaller ?U ''bar'' = Some [''/g/src/d/b.go:3:6'']" "funcs ?U = [?foo, ?bar]"
    by simp_all
  have c: "Contains ''/g/src/d/b.go:3:6'' ''d/b.go''" by simp
  have "\<forall>d \<in> set (funcs ?U).
            d \<in> set [?foo] \<longleftrightarrow>
              (case filesByCaller ?U (Name d) of
                 None \<Rightarrow> True
               | Some positions \<Rightarrow> \<forall>p \<in> set positions. \<not> Contains p (File d))"
    using Run_reports_unused[OF ex_run_b i] by blast
  then have "?foo \<in> set [?foo]" and "?bar \<notin> set [?foo]"
    unfolding f using c by simp_all
  then show ?thesis using ex_run_b i f(1,2) by blast
qed


subsection \<open>Identifiers-only mode\<close>

text \<open>
  C7. With identifiers-only mode on, \<^verbatim>\<open>Run\<close> makes no oracle query: after the sanity
  checks and the collection phase, neither of which queries the oracle, it returns what
  \<^verbatim>\<open>findUnusedIdents\<close> returns on the finder as the collection left it, so the branch
  that returns the oracle's error is not taken. That the method itself makes no query is
  what the specification says of it, and is the second hypothesis.
\<close>

theorem Run_idents_skips_oracle:
  assumes "Idents uff"
    and "\<forall>u r u'. findUnusedIdents e u = Some (r, u') \<longrightarrow> queries (trace u') = queries (trace u)"
  shows "(\<forall>r uff'. Run e fileArgs uff = Some (r, uff') \<longrightarrow> queries (trace uff') = queries (trace uff))
       \<and> (fileArgs \<noteq> [] \<and> os_Getenv_GOPATH e \<noteq> [] \<longrightarrow>
            (\<exists>uff1. Run_collect e fileArgs (Logf CollectingFuncDecls uff) = Some uff1
               \<and> queries (trace uff1) = queries (trace uff)
               \<and> Run e fileArgs uff =
                   findUnusedIdents e (Logf (ParsedSourceFiles (numFilesRead uff1)) uff1)))"
proof -
  have 2: "fileArgs \<noteq> [] \<and> os_Getenv_GOPATH e \<noteq> [] \<longrightarrow>
            (\<exists>uff1. Run_collect e fileArgs (Logf CollectingFuncDecls uff) = Some uff1
               \<and> queries (trace uff1) = queries (trace uff)
               \<and> Run e fileArgs uff =
                   findUnusedIdents e (Logf (ParsedSourceFiles (numFilesRead uff1)) uff1))"
    using Run_with_idents[OF _ _ assms(1)] collectedD(5) by blast
  have 1: "queries (trace uff') = queries (trace uff)" if r: "Run e fileArgs uff = Some (r, uff')"
    for r uff'
  proof (cases "fileArgs = [] \<or> os_Getenv_GOPATH e = []")
    case True
    with r have "uff' = Errorf MustSupplyFile uff \<or> uff' = Errorf GopathUnset uff"
      by (auto simp: Run_def split: if_splits)
    then show ?thesis by (auto simp: Errorf_fields)
  next
    case False
    with 2 obtain uff1 where q: "queries (trace uff1) = queries (trace uff)"
      and "Run e fileArgs uff = findUnusedIdents e (Logf (ParsedSourceFiles (numFilesRead uff1)) uff1)"
      by blast
    with r have "findUnusedIdents e (Logf (ParsedSourceFiles (numFilesRead uff1)) uff1) = Some (r, uff')"
      by simp
    with assms(2) have "queries (trace uff') = queries (trace (Logf (ParsedSourceFiles (numFilesRead uff1)) uff1))"
      by blast
    then show ?thesis using q by (simp add: Logf_fields)
  qed
  from 1 2 show ?thesis by blast
qed

theorem Run_idents_skips_oracle_witness:
  "\<exists>uff'. Run ex_env [''d/b.go''] (NewUnusedFunctionFinder\<lparr>Idents := True\<rparr>) =
             Some (([\<lparr>Name = ''foo'', File = ''d/b.go''\<rparr>, \<lparr>Name = ''bar'', File = ''d/b.go''\<rparr>], None), uff')
           \<and> queries (trace uff') = []"
proof -
  let ?u = "NewUnusedFunctionFinder\<lparr>Idents := True\<rparr>"
  have i: "Idents ?u" by simp
  have h: "\<forall>u r u'. findUnusedIdents ex_env u = Some (r, u') \<longrightarrow> queries (trace u') = queries (trace u)"
    by (auto simp: ex_env_def)
  have r: "Run ex_env [''d/b.go''] ?u =
      Some (([\<lparr>Name = ''foo'', File = ''d/b.go''\<rparr>, \<lparr>Name = ''bar'', File = ''d/b.go''\<rparr>], None),
            ?u\<lparr>funcs := [\<lparr>Name = ''foo'', File = ''d/b.go''\<rparr>, \<lparr>Name = ''bar'', File = ''d/b.go''\<rparr>],
                numFilesRead := 1, trace := [Stat ''d/b.go'', Parse ''d/b.go'']\<rparr>)"
    by (simp add: ex_eval)
  have "queries (trace ?u) = []" by (simp add: NewUnusedFunctionFinder_def)
  then show ?thesis
    using Run_idents_skips_oracle[OF i h, of "[''d/b.go'']"] r by metis
qed

subsection \<open>A call graph supplied before the run\<close>

text \<open>
  C2, as the code has it. With identifiers-only mode off and the sanity checks passed,
  \<^verbatim>\<open>Run\<close> returns and queries the oracle exactly once, with the packages the collection
  found, whatever the \<^verbatim>\<open>Callgraph\<close> field held before. If the query fails or gives no
  call graph, the error is returned with no findings. Otherwise the oracle's graph replaces
  the one in the field, and the findings are computed from the collected records and the
  index the finder had before the run extended by the positions of the oracle's graph.
\<close>

theorem Run_queries_oracle:
  assumes "fileArgs \<noteq> []" and "os_Getenv_GOPATH e \<noteq> []" and "\<not> Idents uff"
  shows "\<exists>uff1 r uff'.
           Run_collect e fileArgs (Logf CollectingFuncDecls uff) = Some uff1
           \<and> Run e fileArgs uff = Some (r, uff')
           \<and> queries (trace uff') = queries (trace uff) @ [pkgs uff1]
           \<and> (case oracle_Query e (pkgs uff1) of
                 Inl err \<Rightarrow> r = ([], Some err)
               | Inr None \<Rightarrow> r = ([], Some NoCallgraphPresent)
               | Inr (Some cg) \<Rightarrow>
                   r = (computeUnusedFuncs uff', None) \<and> Callgraph uff' = cg
                   \<and> funcs uff' = funcs uff1
                   \<and> (\<forall>k. filesByCaller uff' k =
                         (if positionsFor cg k = [] then filesByCaller uff k
                          else Some ((case filesByCaller uff k of None \<Rightarrow> [] | Some files \<Rightarrow> files)
                                       @ positionsFor cg k))))"
proof -
  from Run_without_idents[OF assms] obtain uff1 where
    c: "Run_collect e fileArgs (Logf CollectingFuncDecls uff) = Some uff1"
    and col: "collected uff uff1"
    and r: "Run e fileArgs uff =
          (case getCallgraphFromOracle e
                  (Logf (RunningCallgraphAnalysis (pkgs uff1))
                     (Logf (ParsedSourceFiles (numFilesRead uff1)) uff1)) of
             (Some err, uff3) \<Rightarrow> Some (([], Some err), Errorf (ErrorFromOracle err) uff3)
           | (None, uff3) \<Rightarrow>
               Some ((computeUnusedFuncs (buildFileMap uff3), None),
                     Logf EmptyLine (Logf ScanningCallgraph (buildFileMap uff3))))"
    by blast
  let ?u2 = "Logf (RunningCallgraphAnalysis (pkgs uff1))
               (Logf (ParsedSourceFiles (numFilesRead uff1)) uff1)"
  have u2: "pkgs ?u2 = pkgs uff1" "funcs ?u2 = funcs uff1" "filesByCaller ?u2 = filesByCaller uff"
    "queries (trace ?u2) = queries (trace uff)"
    using col by (simp_all add: Logf_fields collectedD)
  let ?t = "?u2\<lparr>trace := trace ?u2 @ [Query (pkgs uff1)]\<rparr>"
  show ?thesis
  proof (cases "oracle_Query e (pkgs uff1)")
    case (Inl err)
    then have "Run e fileArgs uff = Some (([], Some err), Errorf (ErrorFromOracle err) ?t)"
      unfolding r by (simp add: getCallgraphFromOracle_cases u2)
    moreover have "queries (trace (Errorf (ErrorFromOracle err) ?t)) = queries (trace uff) @ [pkgs uff1]"
      by (simp add: Errorf_fields queries_append u2)
    ultimately show ?thesis using c Inl by auto
  next
    case (Inr g)
    show ?thesis
    proof (cases g)
      case None
      then have "Run e fileArgs uff =
          Some (([], Some NoCallgraphPresent), Errorf (ErrorFromOracle NoCallgraphPresent) ?t)"
        unfolding r using Inr by (simp add: getCallgraphFromOracle_cases u2)
      moreover have "queries (trace (Errorf (ErrorFromOracle NoCallgraphPresent) ?t))
          = queries (trace uff) @ [pkgs uff1]"
        by (simp add: Errorf_fields queries_append u2)
      ultimately show ?thesis using c Inr None by auto
    next
      case (Some cg)
      let ?u3 = "?t\<lparr>Callgraph := cg\<rparr>"
      let ?u' = "Logf EmptyLine (Logf ScanningCallgraph (buildFileMap ?u3))"
      have run: "Run e fileArgs uff = Some ((computeUnusedFuncs (buildFileMap ?u3), None), ?u')"
        unfolding r using Inr Some by (simp add: getCallgraphFromOracle_cases u2)
      have "computeUnusedFuncs (buildFileMap ?u3) = computeUnusedFuncs ?u'"
        by (simp add: computeUnusedFuncs_Logf)
      moreover have "Callgraph ?u' = cg" by (simp add: Logf_fields buildFileMap_fields)
      moreover have "funcs ?u' = funcs uff1" by (simp add: Logf_fields buildFileMap_fields)
      moreover have "queries (trace ?u') = queries (trace uff) @ [pkgs uff1]"
        by (simp add: Logf_fields buildFileMap_fields queries_append collectedD(5)[OF col])
      moreover have "\<forall>k. filesByCaller ?u' k =
                         (if positionsFor cg k = [] then filesByCaller uff k
                          else Some ((case filesByCaller uff k of None \<Rightarrow> [] | Some files \<Rightarrow> files)
                                       @ positionsFor cg k))"
        by (simp add: Logf_fields buildFileMap_fields collectedD(3)[OF col])
      ultimately show ?thesis using c run Inr Some by auto
    qed
  qed
qed


theorem Run_queries_oracle_witness:
  "\<exists>uff1 r uff'.
      Run_collect ex_env [''d/b.go'']
        (Logf CollectingFuncDecls
           (NewUnusedFunctionFinder\<lparr>Callgraph := [\<lparr>cg_Name = ''d.foo'', cg_Pos = ''d/b.go:1:1''\<rparr>]\<rparr>))
        = Some uff1
      \<and> Run ex_env [''d/b.go'']
           (NewUnusedFunctionFinder\<lparr>Callgraph := [\<lparr>cg_Name = ''d.foo'', cg_Pos = ''d/b.go:1:1''\<rparr>]\<rparr>)
         = Some (r, uff')
      \<and> queries (trace uff') = [pkgs uff1]
      \<and> r = (computeUnusedFuncs uff', None)
      \<and> Callgraph uff' = [\<lparr>cg_Name = ''d.bar'', cg_Pos = ''/g/src/d/b.go:3:6''\<rparr>,
                           \<lparr>cg_Name = ''main'', cg_Pos = ''-''\<rparr>]"
proof -
  let ?u0 = "NewUnusedFunctionFinder\<lparr>Callgraph := [\<lparr>cg_Name = ''d.foo'', cg_Pos = ''d/b.go:1:1''\<rparr>]\<rparr>"
  have a: "[''d/b.go''] \<noteq> []" "os_Getenv_GOPATH ex_env \<noteq> []" "\<not> Idents ?u0"
    by (simp_all add: ex_env_def NewUnusedFunctionFinder_def)
  have o: "\<And>ps. oracle_Query ex_env ps =
      Inr (Some [\<lparr>cg_Name = ''d.bar'', cg_Pos = ''/g/src/d/b.go:3:6''\<rparr>,
                 \<lparr>cg_Name = ''main'', cg_Pos = ''-''\<rparr>])"
    by (simp add: ex_env_def)
  have t: "queries (trace ?u0) = []" by (simp add: NewUnusedFunctionFinder_def)
  show ?thesis using Run_queries_oracle[OF a] unfolding o t by auto
qed

text \<open>
  The statement of the specification fails in the example world. The finder is given a
  graph in which \<open>foo\<close> is called from \<open>d/b.go\<close>; the run still queries the oracle, and
  reports \<open>foo\<close>, which the supplied graph would not, in place of \<open>bar\<close>, which it would.
\<close>

theorem Run_supplied_graph_counterexample:
  "Callgraph (NewUnusedFunctionFinder\<lparr>Callgraph := [\<lparr>cg_Name = ''d.foo'', cg_Pos = ''d/b.go:1:1''\<rparr>]\<rparr>)
     = [\<lparr>cg_Name = ''d.foo'', cg_Pos = ''d/b.go:1:1''\<rparr>]
   \<and> \<not> Idents (NewUnusedFunctionFinder\<lparr>Callgraph := [\<lparr>cg_Name = ''d.foo'', cg_Pos = ''d/b.go:1:1''\<rparr>]\<rparr>)
   \<and> (\<exists>uff'. Run ex_env [''d/b.go'']
                 (NewUnusedFunctionFinder\<lparr>Callgraph := [\<lparr>cg_Name = ''d.foo'', cg_Pos = ''d/b.go:1:1''\<rparr>]\<rparr>)
               = Some (([\<lparr>Name = ''foo'', File = ''d/b.go''\<rparr>], None), uff')
          \<and> trace uff' = [Stat ''d/b.go'', Parse ''d/b.go'', Query {}]
          \<and> funcs uff' = [\<lparr>Name = ''foo'', File = ''d/b.go''\<rparr>, \<lparr>Name = ''bar'', File = ''d/b.go''\<rparr>]
          \<and> computeUnusedFuncs
               (buildFileMap
                  (uff'\<lparr>Callgraph := [\<lparr>cg_Name = ''d.foo'', cg_Pos = ''d/b.go:1:1''\<rparr>],
                        filesByCaller := Map.empty\<rparr>))
             = [\<lparr>Name = ''bar'', File = ''d/b.go''\<rparr>])"
  by (simp add: ex_eval computeUnusedFuncs_def isInCG_def)


subsection \<open>A file of a directory that does not parse\<close>

lemma readDir_walk_append:
  "readDir_walk e (xs @ ys) a =
     (case readDir_walk e xs a of
        None \<Rightarrow> None
      | Some (Some err, a1) \<Rightarrow> Some (Some err, a1)
      | Some (None, a1) \<Rightarrow> readDir_walk e ys a1)"
proof (induction xs arbitrary: a)
  case Nil
  show ?case by simp
next
  case (Cons x xs)
  obtain path isdir err where x: "x = (path, isdir, err)" by (cases x)
  show ?case
    by (simp add: x Cons.IH split: option.splits prod.splits)
qed

text \<open>
  C3, as the code has it. When the walk of a directory input reaches a file that can be
  read and does not parse, the walk of that directory ends there: the entries after the
  file are not visited. The failure is not fatal to the run: the records collected before
  it are kept, the error is written to the log sink with the name of the directory,
  followed by the line \<open>Continuing...\<close>, and the run goes on with the remaining input
  paths.
\<close>

theorem Run_collect_directory_parse_failure:
  assumes "os_Stat_IsDir e dirname"
    and "filepath_Walk e dirname = before @ (path, False, None) # rest"
    and "readDir_walk e before (uff\<lparr>trace := trace uff @ [Stat dirname, Walk dirname]\<rparr>) = Some (None, uff1)"
    and "fst (canReadSourceFile path uff1)"
    and "parser_ParseFile e path = Inl err"
  shows "Run_collect e (dirname # fileArgs) uff =
           Run_collect e fileArgs
             (uff1\<lparr>trace := trace uff1 @ [Parse path, Log (ErrorReadingDirectory dirname err),
                                            Log Continuing]\<rparr>)"
proof -
  have can: "canReadSourceFile path uff1 = (True, uff1)"
    using assms(4) by (auto simp: canReadSourceFile_def split: if_splits)
  have "walkFn e path False None uff1 = Some (Some err, uff1\<lparr>trace := trace uff1 @ [Parse path]\<rparr>)"
    by (simp add: walkFn_def can readFuncsAndImportsFromFile_def assms(5))
  then have "readDir_walk e ((path, False, None) # rest) uff1
      = Some (Some err, uff1\<lparr>trace := trace uff1 @ [Parse path]\<rparr>)"
    by simp
  then have "readDir e dirname (uff\<lparr>trace := trace uff @ [Stat dirname]\<rparr>)
      = Some (Some err, uff1\<lparr>trace := trace uff1 @ [Parse path]\<rparr>)"
    using assms(3) by (simp add: readDir_def assms(2) readDir_walk_append)
  then show ?thesis
    using assms(1) by (simp add: Errorf_def)
qed

lemma ex_walk_d:
  "filepath_Walk ex_env ''d'' = [(''d'', True, None)] @ (''d/a.go'', False, None) #
     [(''d/b.go'', False, None), (''d/c.txt'', False, None)]"
  by (simp add: ex_env_def)

theorem Run_collect_directory_parse_failure_witness:
  "Run_collect ex_env [''d'', ''d/b.go''] NewUnusedFunctionFinder =
     Some (NewUnusedFunctionFinder
             \<lparr>funcs := [\<lparr>Name = ''foo'', File = ''d/b.go''\<rparr>, \<lparr>Name = ''bar'', File = ''d/b.go''\<rparr>],
              numFilesRead := 1,
              trace := [Stat ''d'', Walk ''d'', Parse ''d/a.go'',
                        Log (ErrorReadingDirectory ''d'' (ExternalError ''expected declaration'')),
                        Log Continuing, Stat ''d/b.go'', Parse ''d/b.go'']\<rparr>)"
proof -
  let ?u1 = "NewUnusedFunctionFinder\<lparr>trace := [Stat ''d'', Walk ''d'']\<rparr>"
  have 1: "os_Stat_IsDir ex_env ''d''" by (simp add: ex_env_def)
  have 3: "readDir_walk ex_env [(''d'', True, None)]
      (NewUnusedFunctionFinder\<lparr>trace := trace NewUnusedFunctionFinder @ [Stat ''d'', Walk ''d'']\<rparr>)
      = Some (None, ?u1)"
    by (simp add: walkFn_def NewUnusedFunctionFinder_def)
  have 4: "fst (canReadSourceFile ''d/a.go'' ?u1)"
    by (simp add: canReadSourceFile_def HasSuffix_def NewUnusedFunctionFinder_def)
  have 5: "parser_ParseFile ex_env ''d/a.go'' = Inl (ExternalError ''expected declaration'')"
    by (simp add: ex_env_def)
  have "Run_collect ex_env [''d'', ''d/b.go''] NewUnusedFunctionFinder =
        Run_collect ex_env [''d/b.go'']
          (?u1\<lparr>trace := trace ?u1 @ [Parse ''d/a.go'',
             Log (ErrorReadingDirectory ''d'' (ExternalError ''expected declaration'')), Log Continuing]\<rparr>)"
    by (rule Run_collect_directory_parse_failure[OF 1 ex_walk_d 3 4 5])
  also have "\<dots> = Some (NewUnusedFunctionFinder
             \<lparr>funcs := [\<lparr>Name = ''foo'', File = ''d/b.go''\<rparr>, \<lparr>Name = ''bar'', File = ''d/b.go''\<rparr>],
              numFilesRead := 1,
              trace := [Stat ''d'', Walk ''d'', Parse ''d/a.go'',
                        Log (ErrorReadingDirectory ''d'' (ExternalError ''expected declaration'')),
                        Log Continuing, Stat ''d/b.go'', Parse ''d/b.go'']\<rparr>)"
    by (simp add: ex_eval)
  finally show ?thesis .
qed

text \<open>
  The statement of the specification fails in the example world. The directory \<open>d\<close>
  holds two files that can be read; \<open>a.go\<close> does not parse and is walked first, \<open>b.go\<close>
  declares \<open>foo\<close> and \<open>bar\<close>. The run does not abort, but \<open>b.go\<close> is never handed
  to the parser and no record of it is collected.
\<close>

theorem readDir_parse_failure_counterexample:
  "os_Stat_IsDir ex_env ''d''
   \<and> map fst (filepath_Walk ex_env ''d'') = [''d'', ''d/a.go'', ''d/b.go'', ''d/c.txt'']
   \<and> fst (canReadSourceFile ''d/a.go'' NewUnusedFunctionFinder)
   \<and> fst (canReadSourceFile ''d/b.go'' NewUnusedFunctionFinder)
   \<and> parser_ParseFile ex_env ''d/a.go'' = Inl (ExternalError ''expected declaration'')
   \<and> map_sum id (\<lambda>f. funcDeclNames (file_Nodes f)) (parser_ParseFile ex_env ''d/b.go'')
       = Inr [''foo'', ''TestFoo'', ''bar'']
   \<and> (\<exists>uff'. Run ex_env [''d''] NewUnusedFunctionFinder = Some (([], None), uff')
          \<and> funcs uff' = []
          \<and> parses (trace uff') = [''d/a.go''])"
  by (simp add: ex_eval computeUnusedFuncs_def isInCG_def)

subsection \<open>The exclusion rule\<close>

lemma funcs_Inspect:
  "funcs (Inspect filename ns u) =
     funcs u @ map (\<lambda>n. \<lparr>Name = n, File = filename\<rparr>)
                 (filter (\<lambda>n. n \<noteq> [] \<and> \<not> excludedName n) (funcDeclNames ns))"
proof (induction ns arbitrary: u)
  case Nil
  show ?case by simp
next
  case (Cons n ns)
  show ?case
    by (cases n) (simp_all add: Cons.IH inspectNode_def excludedName_def)
qed

lemma funcs_AddPkg: "funcs (AddPkg p u) = funcs u"
  by (simp add: AddPkg_def Logf_def)

lemma set_computeUnusedFuncs: "set (computeUnusedFuncs u) \<subseteq> set (funcs u)"
  by (simp add: computeUnusedFuncs_filter)

lemma Run_findings_collected:
  assumes "\<not> Idents uff" and "Run e fileArgs uff = Some ((findings, err), uff')"
  shows "\<exists>new. set findings \<subseteq> set (funcs uff) \<union> set new
           \<and> (\<forall>d \<in> set new. Name d \<noteq> [] \<and> \<not> excludedName (Name d))"
proof (cases "fileArgs = [] \<or> os_Getenv_GOPATH e = []")
  case True
  with assms(2) have "findings = []" by (auto simp: Run_def split: if_splits)
  then show ?thesis by (intro exI[of _ "[]"]) simp
next
  case False
  let ?q = "\<lambda>uff1. getCallgraphFromOracle e
                       (Logf (RunningCallgraphAnalysis (pkgs uff1))
                          (Logf (ParsedSourceFiles (numFilesRead uff1)) uff1))"
  from False Run_without_idents[OF _ _ assms(1), of fileArgs e] obtain uff1 where
    col: "collected uff uff1" and
    r: "Run e fileArgs uff =
          (case ?q uff1 of
             (Some err, uff3) \<Rightarrow> Some (([], Some err), Errorf (ErrorFromOracle err) uff3)
           | (None, uff3) \<Rightarrow>
               Some ((computeUnusedFuncs (buildFileMap uff3), None),
                     Logf EmptyLine (Logf ScanningCallgraph (buildFileMap uff3))))"
    by blast
  from col obtain new where new: "funcs uff1 = funcs uff @ new"
    "\<forall>d \<in> set new. Name d \<noteq> [] \<and> \<not> excludedName (Name d)"
    unfolding collected_def by blast
  obtain x uff3 where q: "?q uff1 = (x, uff3)" by (cases "?q uff1")
  show ?thesis
  proof (cases x)
    case (Some err')
    with r q assms(2) have "findings = []" by simp
    then show ?thesis by (intro exI[of _ "[]"]) simp
  next
    case None
    with r q assms(2) have f: "findings = computeUnusedFuncs (buildFileMap uff3)" by simp
    have "funcs uff3 = funcs uff1"
      using q by (auto simp: getCallgraphFromOracle_cases Logf_fields split: sum.splits option.splits)
    then have "set findings \<subseteq> set (funcs uff) \<union> set new"
      using set_computeUnusedFuncs[of "buildFileMap uff3"] f new(1)
      by (simp add: buildFileMap_fields)
    with new(2) show ?thesis by blast
  qed
qed

text \<open>
  C4, as the code has it. For a file that parses, whatever \<^verbatim>\<open>readFuncsAndImportsFromFile\<close>
  returns: if it returns no error, the records added are exactly the function declarations
  of the file, in order, whose name is not empty, does not contain \<open>Test\<close> and is none
  of \<open>main\<close>, \<open>init\<close>, \<open>test\<close>; if it returns an error, no record is added. It
  returns an error exactly when the file is of package \<open>main\<close> or include-all is on, and
  the package path is not derived. So a declaration with an excluded name is never added,
  and a run with identifiers-only mode off that starts from a finder without excluded names
  reports none.
\<close>

theorem excluded_names_not_collected:
  "(parser_ParseFile e filename = Inr f
      \<and> readFuncsAndImportsFromFile e filename uff = Some (r, uff') \<longrightarrow>
        funcs uff' =
           funcs uff @
             (if r = None then
                map (\<lambda>n. \<lparr>Name = n, File = filename\<rparr>)
                  (filter (\<lambda>n. n \<noteq> [] \<and> \<not> excludedName n) (funcDeclNames (file_Nodes f)))
              else [])
        \<and> (r = None \<longleftrightarrow>
              (file_Name f = ''main'' \<or> IncludeAll uff \<longrightarrow>
                 (\<exists>pkgName. getFullPkgName e filename = Some (Inr pkgName)))))
   \<and> (\<not> Idents uff0 \<and> (\<forall>d \<in> set (funcs uff0). \<not> excludedName (Name d))
        \<and> Run e fileArgs uff0 = Some ((findings, err), uff1) \<longrightarrow>
          (\<forall>d \<in> set findings. \<not> excludedName (Name d)))"
proof -
  have 1: "funcs uff' =
           funcs uff @
             (if r = None then
                map (\<lambda>n. \<lparr>Name = n, File = filename\<rparr>)
                  (filter (\<lambda>n. n \<noteq> [] \<and> \<not> excludedName n) (funcDeclNames (file_Nodes f)))
              else [])
        \<and> (r = None \<longleftrightarrow>
              (file_Name f = ''main'' \<or> IncludeAll uff \<longrightarrow>
                 (\<exists>pkgName. getFullPkgName e filename = Some (Inr pkgName))))"
    if "parser_ParseFile e filename = Inr f"
      and "readFuncsAndImportsFromFile e filename uff = Some (r, uff')"
    using that
    by (auto simp: readFuncsAndImportsFromFile_def Let_def funcs_Inspect funcs_AddPkg
             split: if_splits option.splits sum.splits)
  have 2: "\<forall>d \<in> set findings. \<not> excludedName (Name d)"
    if "\<not> Idents uff0" and "\<forall>d \<in> set (funcs uff0). \<not> excludedName (Name d)"
      and "Run e fileArgs uff0 = Some ((findings, err), uff1)"
    using Run_findings_collected[OF that(1,3)] that(2) by blast
  from 1 2 show ?thesis by blast
qed

lemma ex_read_b:
  "readFuncsAndImportsFromFile ex_env ''d/b.go'' NewUnusedFunctionFinder =
     Some (None,
           NewUnusedFunctionFinder
             \<lparr>funcs := [\<lparr>Name = ''foo'', File = ''d/b.go''\<rparr>, \<lparr>Name = ''bar'', File = ''d/b.go''\<rparr>],
              numFilesRead := 1, trace := [Parse ''d/b.go'']\<rparr>)"
  by (simp add: ex_eval)

lemma ex_run_m:
  "Run ex_env [''m.go''] NewUnusedFunctionFinder =
     Some (([\<lparr>Name = ''run'', File = ''m.go''\<rparr>], None),
           NewUnusedFunctionFinder
             \<lparr>Callgraph := [\<lparr>cg_Name = ''d.bar'', cg_Pos = ''/g/src/d/b.go:3:6''\<rparr>,
                            \<lparr>cg_Name = ''main'', cg_Pos = ''-''\<rparr>],
              filesByCaller := [''bar'' \<mapsto> [''/g/src/d/b.go:3:6'']],
              pkgs := {''.''},
              funcs := [\<lparr>Name = ''run'', File = ''m.go''\<rparr>],
              numFilesRead := 1,
              trace := [Stat ''m.go'', Parse ''m.go'', Query {''.''}]\<rparr>)"
  by (simp add: ex_eval computeUnusedFuncs_def isInCG_def)

theorem excluded_names_not_collected_witness:
  "(\<exists>uff'. readFuncsAndImportsFromFile ex_env ''d/b.go'' NewUnusedFunctionFinder = Some (None, uff')
        \<and> map_sum id (\<lambda>f. funcDeclNames (file_Nodes f)) (parser_ParseFile ex_env ''d/b.go'')
             = Inr [''foo'', ''TestFoo'', ''bar'']
        \<and> funcs uff' = [\<lparr>Name = ''foo'', File = ''d/b.go''\<rparr>, \<lparr>Name = ''bar'', File = ''d/b.go''\<rparr>])
   \<and> (\<exists>uff1. Run ex_env [''m.go''] NewUnusedFunctionFinder
                = Some (([\<lparr>Name = ''run'', File = ''m.go''\<rparr>], None), uff1)
          \<and> map_sum id (\<lambda>f. funcDeclNames (file_Nodes f)) (parser_ParseFile ex_env ''m.go'')
             = Inr [''main'', ''init'', ''run'']
          \<and> \<not> excludedName ''run'')"
proof -
  let ?fb = "\<lparr>file_Name = ''d'',
               file_Nodes = [OtherNode, FuncDecl ''foo'', OtherNode, FuncDecl ''TestFoo'',
                             FuncDecl ''bar'', OtherNode]\<rparr>"
  let ?ub = "NewUnusedFunctionFinder
             \<lparr>funcs := [\<lparr>Name = ''foo'', File = ''d/b.go''\<rparr>, \<lparr>Name = ''bar'', File = ''d/b.go''\<rparr>],
              numFilesRead := 1, trace := [Parse ''d/b.go'']\<rparr>"
  let ?run = "\<lparr>Name = ''run'', File = ''m.go''\<rparr>"
  have p: "parser_ParseFile ex_env ''d/b.go'' = Inr ?fb" "parser_ParseFile ex_env ''m.go'' =
      Inr \<lparr>file_Name = ''main'', file_Nodes = [FuncDecl ''main'', FuncDecl ''init'', FuncDecl ''run'']\<rparr>"
    by (simp_all add: ex_env_def)
  have i: "\<not> Idents NewUnusedFunctionFinder"
    "\<forall>d \<in> set (funcs NewUnusedFunctionFinder). \<not> excludedName (Name d)"
    by (simp_all add: NewUnusedFunctionFinder_def)
  note t = excluded_names_not_collected[of ex_env "''d/b.go''" ?fb NewUnusedFunctionFinder None ?ub
      NewUnusedFunctionFinder "[''m.go'']" "[?run]" None]
  have "\<forall>d \<in> set [?run]. \<not> excludedName (Name d)"
    using t i ex_run_m by blast
  then have 1: "\<not> excludedName ''run''" by simp
  have "funcs ?ub = funcs NewUnusedFunctionFinder @
      (if (None :: error option) = None then
         map (\<lambda>n. \<lparr>Name = n, File = ''d/b.go''\<rparr>)
           (filter (\<lambda>n. n \<noteq> [] \<and> \<not> excludedName n) (funcDeclNames (file_Nodes ?fb)))
       else [])"
    using t p(1) ex_read_b by blast
  then have 2: "funcs ?ub = [\<lparr>Name = ''foo'', File = ''d/b.go''\<rparr>, \<lparr>Name = ''bar'', File = ''d/b.go''\<rparr>]"
    by simp
  have 3: "funcDeclNames (file_Nodes ?fb) = [''foo'', ''TestFoo'', ''bar'']" by simp
  show ?thesis
    unfolding p using 1 2 3 ex_read_b ex_run_m by simp
qed

text \<open>
  The statement of the specification fails in the example world. The file \<open>/x/n.go\<close>
  parses, is of package \<open>main\<close> and lies outside the source root; it declares \<open>foo\<close>,
  whose name is not excluded. The collector returns the package path error and \<open>foo\<close> is
  not collected: the run holds no record at its end.
\<close>

theorem excluded_names_counterexample:
  "map_sum id (\<lambda>f. (file_Name f, funcDeclNames (file_Nodes f))) (parser_ParseFile ex_env ''/x/n.go'')
     = Inr (''main'', [''main'', ''foo''])
   \<and> \<not> excludedName ''foo''
   \<and> (\<exists>uff'. readFuncsAndImportsFromFile ex_env ''/x/n.go'' NewUnusedFunctionFinder
               = Some (Some (MainPackagePath (CdAndTryAgain ''/g'')), uff')
          \<and> funcs uff' = [])
   \<and> (\<exists>uff'. Run ex_env [''/x/n.go''] NewUnusedFunctionFinder = Some (([], None), uff')
          \<and> funcs uff' = []
          \<and> filesByCaller uff' ''foo'' = None)"
  by (simp add: ex_eval computeUnusedFuncs_def isInCG_def excludedName_def)


end
